theory Spec2Isabelle
  imports Complex_Main "HOL-Library.Sublist" "HOL-Library.AList"
begin

section \<open>Exceptions\<close>

text \<open>
  The exceptions the client raises or lets through, as values. \<open>ConnectionError r\<close> is the
  built-in \<^verbatim>\<open>ConnectionError\<close> raised by the circuit breaker; \<open>r\<close> is the remaining
  cool-down that its message embeds (\<^verbatim>\<open>recovery_timeout - (time.monotonic() - _opened_at)\<close>,
  before formatting). \<open>FetchError e\<close> is \<^verbatim>\<open>raise FetchError(...) from e\<close>,
  \<open>RetryExhausted l\<close> carries \<^verbatim>\<open>last_exception\<close>, \<open>HTTPStatusError c\<close> is what
  \<^verbatim>\<open>response.raise_for_status()\<close> raises for status \<open>c\<close>, \<open>KeyError k\<close> is a missing key of
  a decoded body. \<open>Raised n s\<close> is any other exception: \<open>n\<close> is its class name and \<open>s\<close> is
  \<^verbatim>\<open>e.response.status_code\<close> when the exception has one.
\<close>

datatype error =
    ConnectionError real
  | NotFoundError
  | ResolutionError
  | FetchError error
  | RetryExhausted "error option"
  | HTTPStatusError int
  | KeyError string
  | Raised string "int option"

text \<open>\<^verbatim>\<open>type(e).__name__\<close>\<close>

fun type_name :: "error \<Rightarrow> string" where
  "type_name (ConnectionError r) = ''ConnectionError''"
| "type_name NotFoundError = ''NotFoundError''"
| "type_name ResolutionError = ''ResolutionError''"
| "type_name (FetchError e) = ''FetchError''"
| "type_name (RetryExhausted l) = ''RetryExhausted''"
| "type_name (HTTPStatusError c) = ''HTTPStatusError''"
| "type_name (KeyError k) = ''KeyError''"
| "type_name (Raised n s) = n"

text \<open>\<^verbatim>\<open>e.response.status_code\<close>, when \<^verbatim>\<open>hasattr(e, 'response')\<close> and the response has a status.\<close>

fun response_status :: "error \<Rightarrow> int option" where
  "response_status (HTTPStatusError c) = Some c"
| "response_status (Raised n s) = s"
| "response_status e = None"

section \<open>resilience.py: the circuit breaker\<close>

datatype ClientCircuitState = CLOSED | OPEN | HALF_OPEN

text \<open>
  The dataclass \<^verbatim>\<open>ClientCircuitBreaker\<close> without its lock. Clock readings are real numbers
  (the source holds them in floats).
\<close>

record ClientCircuitBreaker =
  failure_threshold :: int
  recovery_timeout :: real
  success_threshold :: int
  state :: ClientCircuitState
  failure_count :: int
  success_count :: int
  opened_at :: real

definition new_breaker :: "int \<Rightarrow> real \<Rightarrow> int \<Rightarrow> ClientCircuitBreaker" where
  "new_breaker ft rt st =
     \<lparr>failure_threshold = ft, recovery_timeout = rt, success_threshold = st,
      state = CLOSED, failure_count = 0, success_count = 0, opened_at = 0\<rparr>"

text \<open>The defaults of the dataclass: 5 failures, 30 seconds, 2 successes.\<close>

definition default_breaker :: ClientCircuitBreaker where
  "default_breaker = new_breaker 5 30 2"

text \<open>
  \<^verbatim>\<open>before_request\<close>. \<open>now\<close> is the reading of \<^verbatim>\<open>time.monotonic()\<close> in the test against
  \<^verbatim>\<open>recovery_timeout\<close>, \<open>now'\<close> the second reading, taken when the message of the
  \<^verbatim>\<open>ConnectionError\<close> is built. Neither is read unless the breaker is open.
\<close>

definition before_request ::
  "real \<Rightarrow> real \<Rightarrow> ClientCircuitBreaker \<Rightarrow> (error + unit) \<times> ClientCircuitBreaker" where
  "before_request now now' b =
     (if state b = CLOSED then (Inr (), b)
      else if state b = OPEN then
        (if now - opened_at b \<ge> recovery_timeout b
         then (Inr (), b\<lparr>state := HALF_OPEN, success_count := 0\<rparr>)
         else (Inl (ConnectionError (recovery_timeout b - (now' - opened_at b))), b))
      else (Inr (), b))"

definition on_success :: "ClientCircuitBreaker \<Rightarrow> ClientCircuitBreaker" where
  "on_success b =
     (if state b = HALF_OPEN then
        (let b1 = b\<lparr>success_count := success_count b + 1\<rparr>
         in if success_count b1 \<ge> success_threshold b1
            then b1\<lparr>state := CLOSED, failure_count := 0\<rparr>
            else b1)
      else b\<lparr>failure_count := 0\<rparr>)"

text \<open>\<^verbatim>\<open>on_failure\<close>; \<open>now\<close> is \<^verbatim>\<open>time.monotonic()\<close>, read only when the breaker opens.\<close>

definition on_failure :: "real \<Rightarrow> ClientCircuitBreaker \<Rightarrow> ClientCircuitBreaker" where
  "on_failure now b =
     (let b1 = b\<lparr>failure_count := failure_count b + 1\<rparr>
      in if state b1 = HALF_OPEN then b1\<lparr>state := OPEN, opened_at := now\<rparr>
         else if failure_count b1 \<ge> failure_threshold b1
              then b1\<lparr>state := OPEN, opened_at := now\<rparr>
              else b1)"

text \<open>A run of failures, one \<^verbatim>\<open>on_failure\<close> per clock reading of the list.\<close>

definition on_failures :: "real list \<Rightarrow> ClientCircuitBreaker \<Rightarrow> ClientCircuitBreaker" where
  "on_failures ts b = foldl (\<lambda>b t. on_failure t b) b ts"



section \<open>resilience.py: the retry engine\<close>

record RetryConfig =
  max_retries :: int
  base_delay_seconds :: real
  max_delay_seconds :: real
  exponential_base :: real
  retryable_status_codes :: "int set"

definition default_retry_config :: RetryConfig where
  "default_retry_config =
     \<lparr>max_retries = 3, base_delay_seconds = 0.5, max_delay_seconds = 30,
      exponential_base = 2, retryable_status_codes = {429, 502, 503, 504}\<rparr>"

text \<open>
  The classifier inside the \<^verbatim>\<open>except\<close> clause: a status code of the retryable set, or a class
  name that contains \<^verbatim>\<open>Connection\<close>, \<^verbatim>\<open>Timeout\<close> or \<^verbatim>\<open>Network\<close>.
\<close>

definition is_retryable :: "RetryConfig \<Rightarrow> error \<Rightarrow> bool" where
  "is_retryable config e \<longleftrightarrow>
     (case response_status e of
        Some c \<Rightarrow> c \<in> retryable_status_codes config
      | None \<Rightarrow> False)
     \<or> list_ex (\<lambda>t. sublist t (type_name e)) [''Connection'', ''Timeout'', ''Network'']"

text \<open>The delay before the jitter factor is applied.\<close>

definition backoff_delay :: "RetryConfig \<Rightarrow> int \<Rightarrow> real" where
  "backoff_delay config attempt =
     min (base_delay_seconds config * exponential_base config ^ nat attempt)
         (max_delay_seconds config)"

text \<open>
  The loop \<^verbatim>\<open>for attempt in range(config.max_retries + 1)\<close>. The work function \<open>func\<close>
  acts on a state \<open>'s\<close> (whatever its calls change) and returns a value or raises.
  \<open>pause d\<close> is \<^verbatim>\<open>time.sleep\<close> of the delay \<open>d\<close> times the random jitter factor, as a
  transition of the same state; the log line is not modelled.
\<close>

function retry_loop ::
  "RetryConfig \<Rightarrow> ('s \<Rightarrow> (error + 'a) \<times> 's) \<Rightarrow> (real \<Rightarrow> 's \<Rightarrow> 's) \<Rightarrow>
   int \<Rightarrow> error option \<Rightarrow> 's \<Rightarrow> (error + 'a) \<times> 's" where
  "retry_loop config func pause attempt last_exception s =
     (if attempt < max_retries config + 1 then
        (case func s of
           (Inr v, s') \<Rightarrow> (Inr v, s')
         | (Inl e, s') \<Rightarrow>
             if \<not> is_retryable config e \<or> attempt = max_retries config
             then (Inl e, s')
             else retry_loop config func pause (attempt + 1) (Some e)
                    (pause (backoff_delay config attempt) s'))
      else (Inl (RetryExhausted last_exception), s))"
  by pat_completeness auto
termination
  by (relation "measure (\<lambda>(config, func, pause, attempt, last_exception, s).
                  nat (max_retries config + 1 - attempt))") auto

declare retry_loop.simps [simp del]

definition retry_with_backoff ::
  "('s \<Rightarrow> (error + 'a) \<times> 's) \<Rightarrow> RetryConfig \<Rightarrow> (real \<Rightarrow> 's \<Rightarrow> 's) \<Rightarrow>
   's \<Rightarrow> (error + 'a) \<times> 's" where
  "retry_with_backoff func config pause s = retry_loop config func pause 0 None s"

text \<open>A work function with a counter of its invocations beside its state.\<close>

definition counted ::
  "('s \<Rightarrow> (error + 'a) \<times> 's) \<Rightarrow> nat \<times> 's \<Rightarrow> (error + 'a) \<times> (nat \<times> 's)" where
  "counted func = (\<lambda>(n, s). case func s of (r, s') \<Rightarrow> (r, (Suc n, s')))"

definition counted_pause :: "(real \<Rightarrow> 's \<Rightarrow> 's) \<Rightarrow> real \<Rightarrow> nat \<times> 's \<Rightarrow> nat \<times> 's" where
  "counted_pause pause d = (\<lambda>(n, s). (n, pause d s))"

section \<open>Python strings\<close>

text \<open>
  Strings are lists of 8-bit characters; the operations below are those of Python's
  \<^verbatim>\<open>str\<close> on 7-bit text. \<^verbatim>\<open>s.startswith(p)\<close> is \<^term>\<open>prefix p s\<close>, \<^verbatim>\<open>p in s\<close> is
  \<^term>\<open>sublist p s\<close>, \<^verbatim>\<open>s[:n]\<close> and \<^verbatim>\<open>s[n:]\<close> are \<^term>\<open>take n s\<close> and \<^term>\<open>drop n s\<close>.
\<close>

text \<open>\<^verbatim>\<open>s.strip(chars)\<close> and \<^verbatim>\<open>s.rstrip(chars)\<close>\<close>

definition str_rstrip :: "string \<Rightarrow> string \<Rightarrow> string" where
  "str_rstrip chars s = rev (dropWhile (\<lambda>c. c \<in> set chars) (rev s))"

definition str_strip :: "string \<Rightarrow> string \<Rightarrow> string" where
  "str_strip chars s = str_rstrip chars (dropWhile (\<lambda>c. c \<in> set chars) s)"

text \<open>The characters \<^verbatim>\<open>str.isspace\<close> accepts below 128, removed by \<^verbatim>\<open>s.rstrip()\<close>.\<close>

definition whitespace :: string where
  "whitespace = [CHR 0x09, CHR 0x0A, CHR 0x0B, CHR 0x0C, CHR 0x0D,
                 CHR 0x1C, CHR 0x1D, CHR 0x1E, CHR 0x1F, CHR 0x20]"

text \<open>\<^verbatim>\<open>s.upper()\<close>\<close>

definition upper_char :: "char \<Rightarrow> char" where
  "upper_char c =
     (case map_of (zip ''abcdefghijklmnopqrstuvwxyz'' ''ABCDEFGHIJKLMNOPQRSTUVWXYZ'') c of
        Some u \<Rightarrow> u
      | None \<Rightarrow> c)"

definition str_upper :: "string \<Rightarrow> string" where
  "str_upper s = map upper_char s"

text \<open>\<^verbatim>\<open>s.isdigit()\<close>\<close>

definition str_isdigit :: "string \<Rightarrow> bool" where
  "str_isdigit s \<longleftrightarrow> s \<noteq> [] \<and> list_all (\<lambda>c. c \<in> set ''0123456789'') s"

text \<open>\<^verbatim>\<open>s.find(sub, start)\<close>; \<open>None\<close> is Python's \<open>-1\<close>.\<close>

fun find_aux :: "string \<Rightarrow> nat \<Rightarrow> string \<Rightarrow> nat option" where
  "find_aux sub i [] = (if sub = [] then Some i else None)"
| "find_aux sub i (c # cs) =
     (if prefix sub (c # cs) then Some i else find_aux sub (Suc i) cs)"

definition str_find :: "string \<Rightarrow> string \<Rightarrow> nat \<Rightarrow> nat option" where
  "str_find s sub start =
     (if start > length s then None else find_aux sub start (drop start s))"

text \<open>\<^verbatim>\<open>s.replace(old, new)\<close> for a non-empty \<open>old\<close>; with an empty one the string is kept.\<close>

function str_replace :: "string \<Rightarrow> string \<Rightarrow> string \<Rightarrow> string" where
  "str_replace old new s =
     (if old = [] then s
      else if s = [] then []
      else if prefix old s then new @ str_replace old new (drop (length old) s)
      else hd s # str_replace old new (tl s))"
  by pat_completeness auto
termination
  by (relation "measure (\<lambda>(old, new, s). length s)") auto

declare str_replace.simps [simp del]

text \<open>\<^verbatim>\<open>s.split(c)\<close> for a one-character separator, and \<^verbatim>\<open>sep.join(xs)\<close>\<close>

fun str_split :: "char \<Rightarrow> string \<Rightarrow> string list" where
  "str_split c [] = [[]]"
| "str_split c (x # xs) =
     (if x = c then [] # str_split c xs
      else (case str_split c xs of
              [] \<Rightarrow> [[x]]
            | w # ws \<Rightarrow> (x # w) # ws))"

fun str_join :: "string \<Rightarrow> string list \<Rightarrow> string" where
  "str_join sep [] = []"
| "str_join sep [x] = x"
| "str_join sep (x # y # ys) = x @ sep @ str_join sep (y # ys)"

text \<open>\<^verbatim>\<open>str(n)\<close> for an integer\<close>

fun nat_digits :: "nat \<Rightarrow> string" where
  "nat_digits n =
     (if n < 10 then [''0123456789'' ! n]
      else nat_digits (n div 10) @ [''0123456789'' ! (n mod 10)])"

declare nat_digits.simps [simp del]

definition str_int :: "int \<Rightarrow> string" where
  "str_int i = (if i < 0 then CHR ''-'' # nat_digits (nat (- i)) else nat_digits (nat i))"

section \<open>client.py: the Moniker value type\<close>

text \<open>A \<^verbatim>\<open>Moniker\<close> object, reduced to its \<^verbatim>\<open>_path\<close>; the client reference plays no part in navigation.\<close>

datatype Moniker = Moniker_of (moniker_path: string)

text \<open>\<^verbatim>\<open>Moniker.__init__\<close>\<close>

definition Moniker :: "string \<Rightarrow> Moniker" where
  "Moniker p =
     Moniker_of (str_strip ''/''
       (if prefix ''moniker://'' p then drop (length ''moniker://'') p else p))"

definition child :: "Moniker \<Rightarrow> string \<Rightarrow> Moniker" where
  "child m subpath = Moniker (moniker_path m @ ''/'' @ str_strip ''/'' subpath)"

definition parent :: "Moniker \<Rightarrow> Moniker option" where
  "parent m =
     (if CHR ''/'' \<notin> set (moniker_path m) then None
      else Some (Moniker (str_join ''/'' (butlast (str_split CHR ''/'' (moniker_path m))))))"

section \<open>Python values\<close>

text \<open>
  What a decoded JSON body or a parameter mapping holds: scalars (\<open>None\<close>, booleans,
  integers, strings; floating-point numbers are left out), lists of scalars, and, for a
  parameter, a dictionary of such values. Dictionaries are association lists in insertion
  order, with distinct keys.
\<close>

datatype atom = ANone | ABool bool | AInt int | AStr string

datatype pyvalue = Atom atom | Seq "atom list"

datatype param = Val pyvalue | Dict "(string \<times> pyvalue) list"

text \<open>\<^verbatim>\<open>d.get(k, dflt)\<close>\<close>

definition dict_get :: "(string \<times> 'v) list \<Rightarrow> string \<Rightarrow> 'v \<Rightarrow> 'v" where
  "dict_get d k dflt = (case map_of d k of Some v \<Rightarrow> v | None \<Rightarrow> dflt)"

text \<open>Truth value of an object, as \<^verbatim>\<open>if x\<close> and \<^verbatim>\<open>x or y\<close> take it.\<close>

fun truthy :: "param \<Rightarrow> bool" where
  "truthy (Val (Atom ANone)) = False"
| "truthy (Val (Atom (ABool b))) = b"
| "truthy (Val (Atom (AInt i))) = (i \<noteq> 0)"
| "truthy (Val (Atom (AStr s))) = (s \<noteq> [])"
| "truthy (Val (Seq xs)) = (xs \<noteq> [])"
| "truthy (Dict d) = (d \<noteq> [])"

definition py_or :: "param \<Rightarrow> param \<Rightarrow> param" where
  "py_or x y = (if truthy x then x else y)"

text \<open>The single quote, which a string literal of the theory cannot hold.\<close>

definition sq :: string where
  "sq = [CHR 0x27]"

text \<open>\<^verbatim>\<open>repr\<close> of a string of 7-bit characters.\<close>

definition hex2 :: "nat \<Rightarrow> string" where
  "hex2 n = [''0123456789abcdef'' ! (n div 16), ''0123456789abcdef'' ! (n mod 16)]"

definition repr_char :: "char \<Rightarrow> char \<Rightarrow> string" where
  "repr_char q c =
     (if c = q \<or> c = CHR 0x5C then [CHR 0x5C, c]
      else if c = CHR 0x09 then [CHR 0x5C, CHR ''t'']
      else if c = CHR 0x0A then [CHR 0x5C, CHR ''n'']
      else if c = CHR 0x0D then [CHR 0x5C, CHR ''r'']
      else if (of_char c :: nat) < 32 \<or> (of_char c :: nat) = 127
           then [CHR 0x5C, CHR ''x''] @ hex2 (of_char c)
      else [c])"

definition repr_str :: "string \<Rightarrow> string" where
  "repr_str s =
     (let q = (if CHR 0x27 \<in> set s \<and> CHR 0x22 \<notin> set s then CHR 0x22 else CHR 0x27)
      in q # concat (map (repr_char q) s) @ [q])"

text \<open>\<^verbatim>\<open>str(x)\<close> and \<^verbatim>\<open>repr(x)\<close>\<close>

fun str_atom :: "atom \<Rightarrow> string" where
  "str_atom ANone = ''None''"
| "str_atom (ABool b) = (if b then ''True'' else ''False'')"
| "str_atom (AInt i) = str_int i"
| "str_atom (AStr s) = s"

fun repr_atom :: "atom \<Rightarrow> string" where
  "repr_atom (AStr s) = repr_str s"
| "repr_atom a = str_atom a"

fun str_value :: "pyvalue \<Rightarrow> string" where
  "str_value (Atom a) = str_atom a"
| "str_value (Seq xs) = ''['' @ str_join '', '' (map repr_atom xs) @ '']''"

fun repr_value :: "pyvalue \<Rightarrow> string" where
  "repr_value (Atom a) = repr_atom a"
| "repr_value (Seq xs) = str_value (Seq xs)"

fun str_param :: "param \<Rightarrow> string" where
  "str_param (Val v) = str_value v"
| "str_param (Dict d) =
     ''{'' @ str_join '', '' (map (\<lambda>(k, v). repr_str k @ '': '' @ repr_value v) d) @ ''}''"

section \<open>adapters/oracle.py: query rewriting\<close>

definition RESERVED_PARAMS :: "string set" where
  "RESERVED_PARAMS =
     {''moniker_version'', ''moniker_revision'', ''as_of'', ''limit'', ''offset'',
      ''order_by'', ''method'', ''response_path'', ''query_params'', ''moniker_params''}"

text \<open>
  The loop over the end markers shared by \<^verbatim>\<open>_inject_flashback\<close> and
  \<^verbatim>\<open>_inject_where_clause\<close>: the smallest position at which a marker is found from
  \<open>start\<close> on, or the initial \<open>end_pos\<close>.
\<close>

definition scan_markers :: "string \<Rightarrow> string list \<Rightarrow> nat \<Rightarrow> nat \<Rightarrow> nat" where
  "scan_markers query_upper end_markers start end_pos =
     foldl (\<lambda>e marker.
              case str_find query_upper marker start of
                None \<Rightarrow> e
              | Some pos \<Rightarrow> if pos < e then pos else e)
           end_pos end_markers"

text \<open>
  \<^verbatim>\<open>_inject_flashback\<close>. \<^verbatim>\<open>as_of.isdigit()\<close> exists on strings only: any other value
  raises \<^verbatim>\<open>AttributeError\<close>.
\<close>

definition inject_flashback :: "string \<Rightarrow> param \<Rightarrow> error + string" where
  "inject_flashback query as_of =
     (case as_of of
        Val (Atom (AStr a)) \<Rightarrow>
          (let query_upper = str_upper query;
               flashback_clause =
                 (if str_isdigit a then '' AS OF SCN '' @ a
                  else '' AS OF TIMESTAMP TO_TIMESTAMP('' @ sq @ a @ sq @ '', '' @ sq
                       @ ''YYYY-MM-DD HH24:MI:SS'' @ sq @ '')'')
           in case str_find query_upper '' FROM '' 0 of
                None \<Rightarrow> Inr query
              | Some from_pos \<Rightarrow>
                  (let end_pos =
                         scan_markers query_upper
                           ['' WHERE '', '' GROUP '', '' ORDER '', '' HAVING '', '' UNION '', '';'']
                           (from_pos + 6) (length query)
                   in Inr (take end_pos query @ flashback_clause @ drop end_pos query)))
      | _ \<Rightarrow> Inl (Raised ''AttributeError'' None))"

text \<open>
  \<^verbatim>\<open>_extract_filters\<close>; \<^verbatim>\<open>filters[key] = value\<close> is \<^term>\<open>AList.update key value filters\<close>.
  \<open>keep\<close> is the body of its second loop, over the top-level parameters.
\<close>

definition keep :: "(string \<times> pyvalue) list \<Rightarrow> string \<times> param \<Rightarrow> (string \<times> pyvalue) list" where
  "keep filters = (\<lambda>(key, p).
     case p of
       Val value \<Rightarrow>
         if key \<notin> RESERVED_PARAMS \<and> value \<noteq> Atom ANone
         then AList.update key value filters else filters
     | Dict d \<Rightarrow> filters)"

definition extract_filters :: "(string \<times> param) list \<Rightarrow> (string \<times> pyvalue) list" where
  "extract_filters ps =
     (let moniker_params = dict_get ps ''moniker_params'' (Dict []);
          filters =
            (case moniker_params of
               Dict d \<Rightarrow>
                 foldl (\<lambda>filters (key, value).
                          if key \<notin> RESERVED_PARAMS \<and> value \<noteq> Atom ANone
                          then AList.update key value filters else filters)
                       [] d
             | Val v \<Rightarrow> [])
      in foldl keep filters ps)"

text \<open>One condition of \<^verbatim>\<open>_inject_where_clause\<close>: the body of its loop over the filters.\<close>

fun is_str :: "atom \<Rightarrow> bool" where
  "is_str (AStr s) = True"
| "is_str a = False"

fun condition :: "string \<Rightarrow> pyvalue \<Rightarrow> string" where
  "condition key (Atom (AStr s)) = key @ '' = '' @ sq @ s @ sq"
| "condition key (Seq vs) =
     (let values_str =
            (if list_all is_str vs
             then str_join '', '' (map (\<lambda>v. sq @ str_atom v @ sq) vs)
             else str_join '', '' (map str_atom vs))
      in key @ '' IN ('' @ values_str @ '')'')"
| "condition key (Atom a) = key @ '' = '' @ str_atom a"

definition inject_where_clause :: "string \<Rightarrow> (string \<times> pyvalue) list \<Rightarrow> string" where
  "inject_where_clause query filters =
     (if filters = [] then query
      else
        (let query_upper = str_upper query;
             conditions = map (\<lambda>(key, value). condition key value) filters;
             condition_str = str_join '' AND '' conditions
         in case str_find query_upper '' WHERE '' 0 of
              Some where_pos \<Rightarrow>
                take (where_pos + 7) query @ condition_str @ '' AND ''
                @ drop (where_pos + 7) query
            | None \<Rightarrow>
                (let insert_pos =
                       scan_markers query_upper
                         ['' GROUP '', '' ORDER '', '' HAVING '', '' UNION '', '';'']
                         0 (length query)
                 in take insert_pos query @ '' WHERE '' @ condition_str
                    @ drop insert_pos query)))"

definition inject_limit :: "string \<Rightarrow> param \<Rightarrow> string" where
  "inject_limit query limit =
     (if sublist ''FETCH '' (str_upper query) then query
      else str_rstrip whitespace (str_rstrip '';'' query)
           @ '' FETCH FIRST '' @ str_param limit @ '' ROWS ONLY'')"

section \<open>client.py: ResolvedSource\<close>

record ResolvedSource =
  moniker :: string
  path :: string
  source_type :: string
  connection :: "(string \<times> param) list"
  query :: "string option"
  params :: "(string \<times> param) list"
  schema_info :: "(string \<times> param) list option"
  read_only :: bool
  ownership :: "(string \<times> param) list"
  binding_path :: string
  sub_path :: "string option"
  status :: "string option"
  deprecation_message :: "string option"
  successor :: "string option"
  sunset_deadline :: "string option"
  migration_guide_url :: "string option"
  redirected_from :: "string option"

definition is_deprecated :: "ResolvedSource \<Rightarrow> bool" where
  "is_deprecated r \<longleftrightarrow> status r = Some ''deprecated''"

text \<open>
  \<^verbatim>\<open>_build_query\<close>. The result \<open>None\<close> is Python's \<open>None\<close> (no query).
\<close>

definition build_query :: "ResolvedSource \<Rightarrow> error + string option" where
  "build_query resolved =
     (case query resolved of
        None \<Rightarrow> Inr None
      | Some query0 \<Rightarrow>
          if query0 = [] then Inr None
          else
            (let ps = params resolved;
                 as_of = py_or (dict_get ps ''as_of'' (Val (Atom ANone)))
                               (dict_get ps ''moniker_version'' (Val (Atom ANone)))
             in case (if truthy as_of then inject_flashback query0 as_of else Inr query0) of
                  Inl e \<Rightarrow> Inl e
                | Inr query1 \<Rightarrow>
                    (let filters = extract_filters ps;
                         query2 = (if filters \<noteq> [] then inject_where_clause query1 filters
                                   else query1);
                         limit = dict_get ps ''limit'' (Val (Atom ANone));
                         query3 = (if limit \<noteq> Val (Atom ANone) then inject_limit query2 limit
                                   else query2)
                     in Inr (Some query3))))"




section \<open>client.py: the resolver client\<close>

record ClientConfig =
  service_url :: string
  report_telemetry :: bool
  cache_ttl :: real
  deprecation_enabled :: bool
  warn_on_deprecated :: bool
  deprecation_callback :: bool

text \<open>
  \<open>deprecation_callback\<close> says whether a callback is configured. What the client does to
  the outside is a trace of events: the requests it issues, the warnings and log records it
  emits, the calls of the callback, the telemetry records it posts.
\<close>

datatype event =
    GET string
  | POST string "string list"
  | Warn string
  | Log string
  | Callback string "string option" "string option"
  | Telemetry string string "string option" bool "string option"

text \<open>
  The decoded body of a resolver answer, one field per key that \<^verbatim>\<open>ResolvedSource\<close> is
  built from; \<open>None\<close> is an absent key (for the keys read with \<^verbatim>\<open>.get\<close> and no default,
  also a null).
\<close>

record item =
  i_moniker :: "string option"
  i_path :: "string option"
  i_source_type :: "string option"
  i_connection :: "(string \<times> param) list option"
  i_query :: "string option"
  i_params :: "(string \<times> param) list option"
  i_schema_info :: "(string \<times> param) list option"
  i_read_only :: "bool option"
  i_ownership :: "(string \<times> param) list option"
  i_binding_path :: "string option"
  i_sub_path :: "string option"
  i_status :: "string option"
  i_deprecation_message :: "string option"
  i_successor :: "string option"
  i_sunset_deadline :: "string option"
  i_migration_guide_url :: "string option"
  i_redirected_from :: "string option"

text \<open>
  An answer of the resolver: its status code and what \<^verbatim>\<open>response.json()\<close> returns or
  raises. For \<^verbatim>\<open>/resolve/batch\<close> the body is the list under \<^verbatim>\<open>results\<close> (empty when the
  key is absent).
\<close>

record response =
  status_code :: int
  json :: "error + item"

record batch_response =
  batch_status_code :: int
  batch_json :: "error + item list"

text \<open>
  The world outside the client, of some type \<open>'w\<close>: the two clocks, the resolver behind
  \<^verbatim>\<open>httpx\<close> (a request returns an answer or raises a transport error, and changes the
  world), \<^verbatim>\<open>time.sleep\<close>, the adapter registry with the adapters' \<^verbatim>\<open>fetch\<close> (the registry
  \<^verbatim>\<open>get_adapter\<close> of the adapters package is a parameter here), and the telemetry endpoint. Request
  headers and the authentication module are left out. A clock is read off the world: time
  passes with requests and sleeps, and two readings with nothing in between agree (so the
  two readings of \<^verbatim>\<open>before_request\<close> do, when the client calls it).
\<close>

record ('w, 'd) env =
  time_time :: "'w \<Rightarrow> real"
  time_monotonic :: "'w \<Rightarrow> real"
  time_sleep :: "real \<Rightarrow> 'w \<Rightarrow> 'w"
  http_get :: "string \<Rightarrow> 'w \<Rightarrow> (error + response) \<times> 'w"
  http_post :: "string \<Rightarrow> string list \<Rightarrow> 'w \<Rightarrow> (error + batch_response) \<times> 'w"
  adapter_fetch :: "ResolvedSource \<Rightarrow> 'w \<Rightarrow> (error + 'd) \<times> 'w"
  post_telemetry :: "'w \<Rightarrow> 'w"

type_synonym 'w io = "'w \<times> event list"

definition emit :: "event list \<Rightarrow> 'w io \<Rightarrow> 'w io" where
  "emit es = (\<lambda>(w, tr). (w, tr @ es))"

record MonikerClient =
  config :: ClientConfig
  cache :: "string \<Rightarrow> (ResolvedSource \<times> real) option"
  retry_config :: RetryConfig
  circuit_breaker :: ClientCircuitBreaker

definition new_client :: "ClientConfig \<Rightarrow> MonikerClient" where
  "new_client cfg =
     \<lparr>config = cfg, cache = Map.empty, retry_config = default_retry_config,
      circuit_breaker = default_breaker\<rparr>"

text \<open>
  The construction of the \<^verbatim>\<open>ResolvedSource\<close> from a decoded body: the first four keys are
  subscripted, in this order, and raise \<^verbatim>\<open>KeyError\<close> when absent; the others have defaults.
\<close>

definition make_resolved :: "item \<Rightarrow> error + ResolvedSource" where
  "make_resolved d =
     (case i_moniker d of None \<Rightarrow> Inl (KeyError ''moniker'') | Some mo \<Rightarrow>
      case i_path d of None \<Rightarrow> Inl (KeyError ''path'') | Some pa \<Rightarrow>
      case i_source_type d of None \<Rightarrow> Inl (KeyError ''source_type'') | Some st \<Rightarrow>
      case i_connection d of None \<Rightarrow> Inl (KeyError ''connection'') | Some co \<Rightarrow>
        Inr \<lparr>moniker = mo, path = pa, source_type = st, connection = co,
             query = i_query d,
             params = (case i_params d of None \<Rightarrow> [] | Some ps \<Rightarrow> ps),
             schema_info = i_schema_info d,
             read_only = (case i_read_only d of None \<Rightarrow> True | Some b \<Rightarrow> b),
             ownership = (case i_ownership d of None \<Rightarrow> [] | Some ow \<Rightarrow> ow),
             binding_path = (case i_binding_path d of None \<Rightarrow> [] | Some bp \<Rightarrow> bp),
             sub_path = i_sub_path d,
             status = i_status d,
             deprecation_message = i_deprecation_message d,
             successor = i_successor d,
             sunset_deadline = i_sunset_deadline d,
             migration_guide_url = i_migration_guide_url d,
             redirected_from = i_redirected_from d\<rparr>)"

text \<open>The text of the deprecation warning.\<close>

definition deprecation_msg :: "ResolvedSource \<Rightarrow> string" where
  "deprecation_msg resolved =
     ''Moniker '' @ sq @ path resolved @ sq @ '' is deprecated.''
     @ (case deprecation_message resolved of
          Some dm \<Rightarrow> if dm \<noteq> [] then '' '' @ dm else []
        | None \<Rightarrow> [])
     @ (case successor resolved of
          Some su \<Rightarrow> if su \<noteq> [] then '' Successor: '' @ su else []
        | None \<Rightarrow> [])"

text \<open>
  The block "emit deprecation warnings", the same in \<^verbatim>\<open>_resolve\<close> and in
  \<^verbatim>\<open>batch_resolve\<close>: \<^verbatim>\<open>warnings.warn\<close>, the log record, then the callback. All three
  are taken to return: a warning filter that turns \<^verbatim>\<open>DeprecationWarning\<close> into an error, or
  a callback that raises, is not modelled.
\<close>

definition deprecation_events :: "ClientConfig \<Rightarrow> ResolvedSource \<Rightarrow> event list" where
  "deprecation_events cfg resolved =
     (if deprecation_enabled cfg \<and> is_deprecated resolved \<and> warn_on_deprecated cfg
      then [Warn (deprecation_msg resolved), Log (deprecation_msg resolved)]
           @ (if deprecation_callback cfg
              then [Callback (path resolved) (deprecation_message resolved) (successor resolved)]
              else [])
      else [])"

text \<open>\<^verbatim>\<open>_do_resolve\<close>, the work function handed to the retry engine.\<close>

definition do_resolve ::
  "('w, 'd) env \<Rightarrow> ClientConfig \<Rightarrow> string \<Rightarrow> 'w io \<Rightarrow> (error + item) \<times> 'w io" where
  "do_resolve E cfg p = (\<lambda>(w, tr).
     (let url = service_url cfg @ ''/resolve/'' @ p;
          tr' = tr @ [GET url]
      in case http_get E url w of
           (Inl e, w') \<Rightarrow> (Inl e, (w', tr'))
         | (Inr resp, w') \<Rightarrow>
             if status_code resp = 404 then (Inl NotFoundError, (w', tr'))
             else if status_code resp \<noteq> 200 then (Inl ResolutionError, (w', tr'))
             else (json resp, (w', tr'))))"

definition io_sleep :: "('w, 'd) env \<Rightarrow> real \<Rightarrow> 'w io \<Rightarrow> 'w io" where
  "io_sleep E d = (\<lambda>(w, tr). (time_sleep E d w, tr))"

text \<open>The live cache entry of a moniker, if the cache is enabled and holds one.\<close>

definition cache_lookup :: "('w, 'd) env \<Rightarrow> MonikerClient \<Rightarrow> string \<Rightarrow> 'w \<Rightarrow> ResolvedSource option" where
  "cache_lookup E c m w =
     (if cache_ttl (config c) > 0 then
        (case cache c m of
           Some (resolved, cached_at) \<Rightarrow>
             if time_time E w - cached_at < cache_ttl (config c) then Some resolved else None
         | None \<Rightarrow> None)
      else None)"

text \<open>The two \<^verbatim>\<open>except\<close> clauses of \<^verbatim>\<open>_resolve\<close>.\<close>

definition resolve_except ::
  "('w, 'd) env \<Rightarrow> error \<Rightarrow> MonikerClient \<Rightarrow> 'w io \<Rightarrow> (error + 'a) \<times> MonikerClient \<times> 'w io" where
  "resolve_except E e c io =
     (if e = NotFoundError then (Inl e, c, io)
      else (Inl e,
            c\<lparr>circuit_breaker := on_failure (time_monotonic E (fst io)) (circuit_breaker c)\<rparr>,
            io))"

text \<open>\<^verbatim>\<open>MonikerClient._resolve\<close>\<close>

definition resolve_internal ::
  "('w, 'd) env \<Rightarrow> string \<Rightarrow> MonikerClient \<Rightarrow> 'w io \<Rightarrow>
   (error + ResolvedSource) \<times> MonikerClient \<times> 'w io" where
  "resolve_internal E m c io =
     (case cache_lookup E c m (fst io) of
        Some resolved \<Rightarrow> (Inr resolved, c, io)
      | None \<Rightarrow>
          (let p = str_replace ''moniker://'' [] m;
               now = time_monotonic E (fst io)
           in case before_request now now (circuit_breaker c) of
                (Inl e, b) \<Rightarrow> (Inl e, c\<lparr>circuit_breaker := b\<rparr>, io)
              | (Inr u, b) \<Rightarrow>
                  (let c1 = c\<lparr>circuit_breaker := b\<rparr>
                   in case retry_with_backoff (do_resolve E (config c) p) (retry_config c)
                             (io_sleep E) io of
                        (Inl e, io1) \<Rightarrow> resolve_except E e c1 io1
                      | (Inr data, io1) \<Rightarrow>
                          (case make_resolved data of
                             Inl e \<Rightarrow> resolve_except E e c1 io1
                           | Inr resolved \<Rightarrow>
                               (let io2 = emit (deprecation_events (config c) resolved) io1;
                                    c2 = (if cache_ttl (config c) > 0
                                          then c1\<lparr>cache := (cache c1)
                                                 (m \<mapsto> (resolved, time_time E (fst io2)))\<rparr>
                                          else c1)
                                in (Inr resolved,
                                    c2\<lparr>circuit_breaker := on_success (circuit_breaker c2)\<rparr>,
                                    io2))))))"

text \<open>\<^verbatim>\<open>MonikerClient.resolve\<close>\<close>

definition normalize :: "string \<Rightarrow> string" where
  "normalize m = (if prefix ''moniker://'' m then m else ''moniker://'' @ m)"

definition resolve ::
  "('w, 'd) env \<Rightarrow> string \<Rightarrow> MonikerClient \<Rightarrow> 'w io \<Rightarrow>
   (error + ResolvedSource) \<times> MonikerClient \<times> 'w io" where
  "resolve E m c io = resolve_internal E (normalize m) c io"

text \<open>
  \<^verbatim>\<open>MonikerClient.batch_resolve\<close>. First the loop that answers from the cache and collects
  the monikers still to resolve; the result dictionary is keyed by path.
\<close>

definition batch_cached ::
  "('w, 'd) env \<Rightarrow> MonikerClient \<Rightarrow> 'w \<Rightarrow> string list \<Rightarrow>
   (string \<times> ResolvedSource) list \<times> string list" where
  "batch_cached E c w normalized =
     foldl (\<lambda>(results, uncached) m.
              case cache_lookup E c m w of
                Some resolved \<Rightarrow>
                  (AList.update (str_replace ''moniker://'' [] m) resolved results, uncached)
              | None \<Rightarrow> (results, uncached @ [m]))
           ([], []) normalized"

text \<open>
  The loop over the items of the answer. It stops at the first item that raises; what it
  has stored and emitted until then stays.
\<close>

fun batch_items ::
  "('w, 'd) env \<Rightarrow> item list \<Rightarrow> (string \<times> ResolvedSource) list \<Rightarrow> MonikerClient \<Rightarrow> 'w io \<Rightarrow>
   error option \<times> (string \<times> ResolvedSource) list \<times> MonikerClient \<times> 'w io" where
  "batch_items E [] results c io = (None, results, c, io)"
| "batch_items E (it # its) results c io =
     (case make_resolved it of
        Inl e \<Rightarrow> (Some e, results, c, io)
      | Inr resolved \<Rightarrow>
          (let results' = AList.update (path resolved) resolved results;
               io' = emit (deprecation_events (config c) resolved) io;
               c' = (if cache_ttl (config c) > 0
                     then c\<lparr>cache := (cache c)
                            (''moniker://'' @ path resolved \<mapsto> (resolved, time_time E (fst io')))\<rparr>
                     else c)
           in batch_items E its results' c' io'))"

text \<open>The \<^verbatim>\<open>except Exception\<close> clause of \<^verbatim>\<open>batch_resolve\<close>.\<close>

definition batch_except ::
  "('w, 'd) env \<Rightarrow> error \<Rightarrow> MonikerClient \<Rightarrow> 'w io \<Rightarrow> (error + 'a) \<times> MonikerClient \<times> 'w io" where
  "batch_except E e c io =
     (Inl e,
      c\<lparr>circuit_breaker := on_failure (time_monotonic E (fst io)) (circuit_breaker c)\<rparr>,
      io)"

text \<open>
  \<^verbatim>\<open>response.raise_for_status()\<close> of \<^verbatim>\<open>httpx\<close> raises \<^verbatim>\<open>HTTPStatusError\<close> for every
  status outside 200..299.
\<close>

definition is_success :: "int \<Rightarrow> bool" where
  "is_success code \<longleftrightarrow> 200 \<le> code \<and> code \<le> 299"

text \<open>The monikers sent to \<^verbatim>\<open>/resolve/batch\<close>: the paths of the uncached ones, with the scheme put back.\<close>

definition batch_request :: "string list \<Rightarrow> string list" where
  "batch_request uncached =
     (let paths = map (str_replace ''moniker://'' []) uncached
      in map (\<lambda>p. ''moniker://'' @ p) paths)"

definition batch_resolve ::
  "('w, 'd) env \<Rightarrow> string list \<Rightarrow> MonikerClient \<Rightarrow> 'w io \<Rightarrow>
   (error + (string \<times> ResolvedSource) list) \<times> MonikerClient \<times> 'w io" where
  "batch_resolve E ms c io =
     (case batch_cached E c (fst io) (map normalize ms) of
        (results, uncached) \<Rightarrow>
          if uncached = [] then (Inr results, c, io)
          else
            (let now = time_monotonic E (fst io)
             in case before_request now now (circuit_breaker c) of
                  (Inl e, b) \<Rightarrow> (Inl e, c\<lparr>circuit_breaker := b\<rparr>, io)
                | (Inr u, b) \<Rightarrow>
                    (let c1 = c\<lparr>circuit_breaker := b\<rparr>;
                         url = service_url (config c) @ ''/resolve/batch'';
                         tr1 = snd io @ [POST url (batch_request uncached)]
                     in case http_post E url (batch_request uncached) (fst io) of
                          (Inl e, w1) \<Rightarrow> batch_except E e c1 (w1, tr1)
                        | (Inr resp, w1) \<Rightarrow>
                            if \<not> is_success (batch_status_code resp)
                            then batch_except E (HTTPStatusError (batch_status_code resp))
                                   c1 (w1, tr1)
                            else
                              (case batch_json resp of
                                 Inl e \<Rightarrow> batch_except E e c1 (w1, tr1)
                               | Inr items \<Rightarrow>
                                   (case batch_items E items results c1 (w1, tr1) of
                                      (Some e, results', c2, io2) \<Rightarrow> batch_except E e c2 io2
                                    | (None, results', c2, io2) \<Rightarrow>
                                        (Inr results',
                                         c2\<lparr>circuit_breaker := on_success (circuit_breaker c2)\<rparr>,
                                         io2))))))"

section \<open>client.py: read\<close>

text \<open>
  The \<^verbatim>\<open>finally\<close> clause of \<^verbatim>\<open>read\<close>: the telemetry record (moniker, outcome, source type,
  deprecated flag and successor; latency, row count and error message are left out).
  \<^verbatim>\<open>_report_telemetry\<close> swallows every failure of the request.
\<close>

definition report ::
  "('w, 'd) env \<Rightarrow> ClientConfig \<Rightarrow> string \<Rightarrow> string \<Rightarrow> ResolvedSource option \<Rightarrow> 'w io \<Rightarrow> 'w io" where
  "report E cfg m outcome r = (\<lambda>(w, tr).
     if report_telemetry cfg
     then (post_telemetry E w,
           tr @ [Telemetry m outcome (map_option source_type r)
                   (case r of Some x \<Rightarrow> is_deprecated x | None \<Rightarrow> False)
                   (case r of Some x \<Rightarrow> successor x | None \<Rightarrow> None)])
     else (w, tr))"

text \<open>The two \<^verbatim>\<open>except\<close> clauses of \<^verbatim>\<open>read\<close>, followed by its \<^verbatim>\<open>finally\<close>.\<close>

definition read_except ::
  "('w, 'd) env \<Rightarrow> string \<Rightarrow> error \<Rightarrow> ResolvedSource option \<Rightarrow> MonikerClient \<Rightarrow> 'w io \<Rightarrow>
   (error + 'd) \<times> MonikerClient \<times> 'w io" where
  "read_except E m e r c io =
     (if e = NotFoundError
      then (Inl e, c, report E (config c) m ''not_found'' r io)
      else (Inl (FetchError e), c, report E (config c) m ''error'' r io))"

text \<open>
  \<^verbatim>\<open>MonikerClient.read\<close>. \<open>adapter_fetch\<close> stands for \<^verbatim>\<open>get_adapter(resolved.source_type)\<close>
  followed by \<^verbatim>\<open>adapter.fetch(resolved, self.config, **kwargs)\<close>.
\<close>

definition read ::
  "('w, 'd) env \<Rightarrow> string \<Rightarrow> MonikerClient \<Rightarrow> 'w io \<Rightarrow> (error + 'd) \<times> MonikerClient \<times> 'w io" where
  "read E m c io =
     (let m' = normalize m
      in case resolve_internal E m' c io of
           (Inl e, c1, io1) \<Rightarrow> read_except E m' e None c1 io1
         | (Inr resolved, c1, io1) \<Rightarrow>
             (case adapter_fetch E resolved (fst io1) of
                (Inl e, w2) \<Rightarrow> read_except E m' e (Some resolved) c1 (w2, snd io1)
              | (Inr data, w2) \<Rightarrow>
                  (Inr data, c1, report E (config c1) m' ''success'' (Some resolved) (w2, snd io1))))"

section \<open>Observations on a trace\<close>

text \<open>
  The requests \<^verbatim>\<open>GET /resolve/{path}\<close> among the events of a trace, the address a resolve
  of a moniker asks, and the deprecation events of one item of a batch answer.
\<close>

fun is_GET :: "event \<Rightarrow> bool" where
  "is_GET (GET url) = True"
| "is_GET e = False"

definition get_count :: "event list \<Rightarrow> nat" where
  "get_count tr = length (filter is_GET tr)"

definition resolve_url :: "ClientConfig \<Rightarrow> string \<Rightarrow> string" where
  "resolve_url cfg m = service_url cfg @ ''/resolve/'' @ str_replace ''moniker://'' [] m"

definition item_events :: "ClientConfig \<Rightarrow> item \<Rightarrow> event list" where
  "item_events cfg it =
     (case make_resolved it of Inr resolved \<Rightarrow> deprecation_events cfg resolved | Inl e \<Rightarrow> [])"

text \<open>
  An item of a batch answer from which a \<^verbatim>\<open>ResolvedSource\<close> can be built. The loop of
  \<^verbatim>\<open>batch_resolve\<close> ends at the first item that is not.
\<close>

definition built :: "item \<Rightarrow> bool" where
  "built it = (case make_resolved it of Inr resolved \<Rightarrow> True | Inl e \<Rightarrow> False)"

section \<open>Concrete inputs\<close>



text \<open>A work function that fails with a read timeout of the transport at every call.\<close>

definition always_timeout :: "unit \<Rightarrow> (error + unit) \<times> unit" where
  "always_timeout s = (Inl (Raised ''ReadTimeout'' None), s)"

text \<open>A resolved Oracle source, as the fixture of the adapter's tests builds it.\<close>

definition oracle_source :: "string \<Rightarrow> (string \<times> param) list \<Rightarrow> ResolvedSource" where
  "oracle_source q ps =
     \<lparr>moniker = ''moniker://test/oracle/data'', path = ''test/oracle/data'',
      source_type = ''oracle'', connection = [], query = Some q, params = ps,
      schema_info = None, read_only = True, ownership = [], binding_path = [],
      sub_path = None, status = None, deprecation_message = None, successor = None,
      sunset_deadline = None, migration_guide_url = None, redirected_from = None\<rparr>"

text \<open>
  A world for the client: the number of requests made so far, which is also what the two
  clocks show (a request takes a second, sleeping takes none). The resolver answers the
  \<open>n\<close>-th request as scripted; adapters return nothing of interest.
\<close>

definition test_env ::
  "(nat \<Rightarrow> error + response) \<Rightarrow> (nat \<Rightarrow> error + batch_response) \<Rightarrow> (nat, unit) env" where
  "test_env gets posts =
     \<lparr>time_time = real, time_monotonic = real, time_sleep = (\<lambda>d w. w),
      http_get = (\<lambda>url w. (gets w, Suc w)),
      http_post = (\<lambda>url body w. (posts w, Suc w)),
      adapter_fetch = (\<lambda>r w. (Inr (), w)),
      post_telemetry = (\<lambda>w. w)\<rparr>"

text \<open>A configuration against the mock service: telemetry off, a callback configured.\<close>

definition test_config :: "real \<Rightarrow> bool \<Rightarrow> ClientConfig" where
  "test_config ttl dep =
     \<lparr>service_url = ''http://mock'', report_telemetry = False, cache_ttl = ttl,
      deprecation_enabled = dep, warn_on_deprecated = True, deprecation_callback = True\<rparr>"

text \<open>Scripted answers of the resolver.\<close>

definition not_found_404 :: "nat \<Rightarrow> error + response" where
  "not_found_404 n = Inr \<lparr>status_code = 404, json = Inl (Raised ''JSONDecodeError'' None)\<rparr>"

definition server_error_500 :: "nat \<Rightarrow> error + response" where
  "server_error_500 n = Inr \<lparr>status_code = 500, json = Inl (Raised ''JSONDecodeError'' None)\<rparr>"

definition batch_404 :: "nat \<Rightarrow> error + batch_response" where
  "batch_404 n = Inr \<lparr>batch_status_code = 404, batch_json = Inl (Raised ''JSONDecodeError'' None)\<rparr>"

text \<open>A deprecated binding as the resolver sends it, the record built from it, and answers that carry it.\<close>

definition deprecated_item :: item where
  "deprecated_item =
     \<lparr>i_moniker = Some ''moniker://a/b'', i_path = Some ''a/b'', i_source_type = Some ''rest'',
      i_connection = Some [], i_query = None, i_params = None, i_schema_info = None,
      i_read_only = None, i_ownership = None, i_binding_path = None, i_sub_path = None,
      i_status = Some ''deprecated'', i_deprecation_message = Some ''use new.path'',
      i_successor = Some ''new/path'', i_sunset_deadline = None,
      i_migration_guide_url = None, i_redirected_from = None\<rparr>"

definition deprecated_source :: ResolvedSource where
  "deprecated_source =
     \<lparr>moniker = ''moniker://a/b'', path = ''a/b'', source_type = ''rest'', connection = [],
      query = None, params = [], schema_info = None, read_only = True, ownership = [],
      binding_path = [], sub_path = None, status = Some ''deprecated'',
      deprecation_message = Some ''use new.path'', successor = Some ''new/path'',
      sunset_deadline = None, migration_guide_url = None, redirected_from = None\<rparr>"

definition ok_200 :: "nat \<Rightarrow> error + response" where
  "ok_200 n = Inr \<lparr>status_code = 200, json = Inr deprecated_item\<rparr>"

definition timeout_then_ok :: "nat \<Rightarrow> error + response" where
  "timeout_then_ok n =
     (if n = 0 then Inl (Raised ''ReadTimeout'' None)
      else Inr \<lparr>status_code = 200, json = Inr deprecated_item\<rparr>)"

text \<open>The same world with an adapter registry that rejects the source type, and a batch answer.\<close>

definition broken_adapter_env :: "(nat, unit) env" where
  "broken_adapter_env =
     (test_env ok_200 batch_404)\<lparr>adapter_fetch := (\<lambda>r w. (Inl (Raised ''ValueError'' None), w))\<rparr>"

definition batch_ok :: "nat \<Rightarrow> error + batch_response" where
  "batch_ok n = Inr \<lparr>batch_status_code = 200, batch_json = Inr [deprecated_item]\<rparr>"

text \<open>
  A batch answer of three items: the deprecated binding, an item without the key
  \<^verbatim>\<open>path\<close>, and a second deprecated binding.
\<close>

definition pathless_item :: item where
  "pathless_item = deprecated_item\<lparr>i_path := None\<rparr>"

definition deprecated_item_cd :: item where
  "deprecated_item_cd =
     deprecated_item\<lparr>i_moniker := Some ''moniker://c/d'', i_path := Some ''c/d''\<rparr>"

definition batch_broken :: "nat \<Rightarrow> error + batch_response" where
  "batch_broken n =
     Inr \<lparr>batch_status_code = 200,
          batch_json = Inr [deprecated_item, pathless_item, deprecated_item_cd]\<rparr>"

text \<open>The warning for the deprecated binding, and the client after a first resolve of it with the warnings enabled.\<close>

definition deprecation_text :: string where
  "deprecation_text = ''Moniker '' @ sq @ ''a/b'' @ sq @ '' is deprecated. use new.path Successor: new/path''"

definition warmed_client :: MonikerClient where
  "warmed_client =
     fst (snd (resolve (test_env ok_200 batch_404) ''a/b'' (new_client (test_config 60 True)) (0, [])))"

section \<open>Circuit breaker: properties\<close>

lemma on_failures_Nil: "on_failures [] b = b"
  by (simp add: on_failures_def)

lemma on_failures_Cons: "on_failures (t # ts) b = on_failures ts (on_failure t b)"
  by (simp add: on_failures_def)

lemma on_failures_snoc: "on_failures (ts @ [t]) b = on_failure t (on_failures ts b)"
  by (simp add: on_failures_def)

lemma on_failure_params:
  "failure_threshold (on_failure t b) = failure_threshold b"
  "recovery_timeout (on_failure t b) = recovery_timeout b"
  "success_threshold (on_failure t b) = success_threshold b"
  "failure_count (on_failure t b) = failure_count b + 1"
  by (simp_all add: on_failure_def Let_def)

lemma on_failures_params:
  "failure_threshold (on_failures ts b) = failure_threshold b"
  "recovery_timeout (on_failures ts b) = recovery_timeout b"
  "success_threshold (on_failures ts b) = success_threshold b"
  "failure_count (on_failures ts b) = failure_count b + int (length ts)"
  by (induction ts arbitrary: b) (simp_all add: on_failures_Nil on_failures_Cons on_failure_params)


text \<open>The failure that reaches the threshold opens the breaker and stamps the opening time.\<close>

lemma on_failure_opens:
  "failure_count b + 1 \<ge> failure_threshold b \<Longrightarrow>
   state (on_failure t b) = OPEN \<and> opened_at (on_failure t b) = t"
  by (simp add: on_failure_def Let_def)

lemma on_failures_opens:
  assumes "ts \<noteq> []" and "failure_count b + int (length ts) \<ge> failure_threshold b"
  shows "state (on_failures ts b) = OPEN \<and> opened_at (on_failures ts b) = last ts"
proof -
  from assms(1) obtain us t where ts: "ts = us @ [t]"
    by (cases ts rule: rev_cases) auto
  have "failure_count (on_failures us b) + 1 \<ge> failure_threshold (on_failures us b)"
    using assms(2) by (simp add: ts on_failures_params)
  then show ?thesis
    unfolding ts on_failures_snoc by (simp add: on_failure_opens)
qed

text \<open>
  Claim C2. Starting from the Closed state, after \<open>failure_threshold\<close> consecutive failures
  recorded by \<open>on_failure\<close> (the threshold being at least one, the failure count not
  negative) the breaker is Open, opened at the time of the last failure. From then on
  \<open>before_request\<close> raises the \<open>ConnectionError\<close> with the remaining cool-down and leaves
  the breaker as it is, as long as less than \<open>recovery_timeout\<close> has elapsed since the
  opening; once \<open>recovery_timeout\<close> has elapsed, \<open>before_request\<close> passes and moves the
  breaker to HalfOpen.
\<close>

theorem breaker_opens_and_recovers:
  assumes "state b = CLOSED"
    and "1 \<le> failure_threshold b"
    and "0 \<le> failure_count b"
    and "length ts = nat (failure_threshold b)"
  shows "state (on_failures ts b) = OPEN \<and>
         opened_at (on_failures ts b) = last ts \<and>
         (\<forall>now now'. now - opened_at (on_failures ts b) < recovery_timeout b \<longrightarrow>
            before_request now now' (on_failures ts b) =
              (Inl (ConnectionError (recovery_timeout b - (now' - opened_at (on_failures ts b)))),
               on_failures ts b)) \<and>
         (\<forall>now now'. recovery_timeout b \<le> now - opened_at (on_failures ts b) \<longrightarrow>
            before_request now now' (on_failures ts b) =
              (Inr (), (on_failures ts b)\<lparr>state := HALF_OPEN, success_count := 0\<rparr>))"
proof -
  let ?b = "on_failures ts b"
  from assms(2,4) have "ts \<noteq> []" by auto
  moreover from assms(2,3,4) have "failure_threshold b \<le> failure_count b + int (length ts)"
    by simp
  ultimately have opened: "state ?b = OPEN \<and> opened_at ?b = last ts"
    by (rule on_failures_opens)
  have timeout: "recovery_timeout ?b = recovery_timeout b"
    by (simp add: on_failures_params)
  from opened timeout show ?thesis
    by (simp add: before_request_def)
qed

theorem breaker_opens_and_recovers_witness:
  "state default_breaker = CLOSED \<and>
   1 \<le> failure_threshold default_breaker \<and>
   0 \<le> failure_count default_breaker \<and>
   length [1, 2, 3, 4, 5 :: real] = nat (failure_threshold default_breaker) \<and>
   state (on_failures [1, 2, 3, 4, 5] default_breaker) = OPEN \<and>
   opened_at (on_failures [1, 2, 3, 4, 5] default_breaker) = 5 \<and>
   fst (before_request 20 21 (on_failures [1, 2, 3, 4, 5] default_breaker))
     = Inl (ConnectionError 14) \<and>
   state (snd (before_request 35 35 (on_failures [1, 2, 3, 4, 5] default_breaker)))
     = HALF_OPEN"
proof -
  have h: "state default_breaker = CLOSED" "1 \<le> failure_threshold default_breaker"
    "0 \<le> failure_count default_breaker"
    "length [1, 2, 3, 4, 5 :: real] = nat (failure_threshold default_breaker)"
    by (simp_all add: default_breaker_def new_breaker_def)
  have t: "recovery_timeout default_breaker = 30"
    by (simp add: default_breaker_def new_breaker_def)
  from breaker_opens_and_recovers [OF h] h t show ?thesis
    by simp
qed






section \<open>Retry engine: properties\<close>

lemma RetryExhausted_not_retryable: "\<not> is_retryable rc (RetryExhausted l)"
  by (simp add: is_retryable_def sublist_code)

text \<open>
  When every call fails with a retryable error, the loop runs to the attempt numbered
  \<open>max_retries\<close> and leaves there through the bare \<^verbatim>\<open>raise\<close>: by induction on the number of
  attempts still to come.
\<close>

lemma retry_loop_all_fail:
  assumes fails: "\<forall>s. \<exists>e s'. func s = (Inl e, s') \<and> is_retryable rc e"
  shows "attempt \<le> max_retries rc \<Longrightarrow> k = nat (max_retries rc - attempt) \<Longrightarrow>
         \<exists>e s0 s'. retry_loop rc (counted func) (counted_pause pause) attempt l (n, s)
                     = (Inl e, (n + k + 1, s'))
                   \<and> func s0 = (Inl e, s') \<and> is_retryable rc e"
proof (induction k arbitrary: attempt l n s)
  case 0
  then have final: "attempt = max_retries rc" by simp
  from fails obtain e s' where f: "func s = (Inl e, s')" "is_retryable rc e" by blast
  have "retry_loop rc (counted func) (counted_pause pause) attempt l (n, s) = (Inl e, (n + 1, s'))"
    by (subst retry_loop.simps) (simp add: final counted_def f)
  with f show ?case by auto
next
  case (Suc k)
  then have lt: "attempt < max_retries rc" by simp
  from fails obtain e s' where f: "func s = (Inl e, s')" "is_retryable rc e" by blast
  have step: "retry_loop rc (counted func) (counted_pause pause) attempt l (n, s)
        = retry_loop rc (counted func) (counted_pause pause) (attempt + 1) (Some e)
            (Suc n, pause (backoff_delay rc attempt) s')"
    using lt by (subst retry_loop.simps) (simp add: counted_def counted_pause_def f)
  from Suc.prems lt have "attempt + 1 \<le> max_retries rc" "k = nat (max_retries rc - (attempt + 1))"
    by simp_all
  from Suc.IH [OF this, of "Some e" "Suc n" "pause (backoff_delay rc attempt) s'"]
  show ?case unfolding step by simp
qed

text \<open>
  Claim C4, as the code behaves. For a work function whose every invocation fails with a
  retryable error, and \<open>max_retries\<close> not negative, the retry engine invokes it
  \<open>max_retries + 1\<close> times and then raises the error of the last invocation itself:
  a retryable error, hence not \<open>RetryExhausted\<close>. The statement \<^verbatim>\<open>raise RetryExhausted\<close>
  after the loop is never reached.
\<close>

theorem retry_reraises_underlying_error:
  assumes "\<forall>s. \<exists>e s'. func s = (Inl e, s') \<and> is_retryable rc e"
    and "0 \<le> max_retries rc"
  shows "\<exists>e s0 s'. retry_with_backoff (counted func) rc (counted_pause pause) (0, s)
                     = (Inl e, (nat (max_retries rc) + 1, s'))
                 \<and> func s0 = (Inl e, s') \<and> is_retryable rc e
                 \<and> (\<forall>l. e \<noteq> RetryExhausted l)"
proof -
  have "\<exists>e s0 s'. retry_loop rc (counted func) (counted_pause pause) 0 None (0, s)
                     = (Inl e, (0 + nat (max_retries rc) + 1, s'))
                   \<and> func s0 = (Inl e, s') \<and> is_retryable rc e"
    using assms by (intro retry_loop_all_fail) simp_all
  then obtain e s0 s' where r:
    "retry_loop rc (counted func) (counted_pause pause) 0 None (0, s)
       = (Inl e, (nat (max_retries rc) + 1, s'))"
    "func s0 = (Inl e, s')" "is_retryable rc e" by auto
  from r(3) have "\<forall>l. e \<noteq> RetryExhausted l"
    using RetryExhausted_not_retryable by blast
  with r show ?thesis unfolding retry_with_backoff_def by blast
qed

theorem retry_reraises_underlying_error_witness:
  "retry_with_backoff (counted always_timeout) default_retry_config
     (counted_pause (\<lambda>d s. s)) (0, ())
   = (Inl (Raised ''ReadTimeout'' None), (4, ()))"
proof -
  have h1: "\<forall>s. \<exists>e s'. always_timeout s = (Inl e, s') \<and> is_retryable default_retry_config e"
    by (simp add: always_timeout_def is_retryable_def sublist_code)
  have h2: "0 \<le> max_retries default_retry_config"
    by (simp add: default_retry_config_def)
  have m: "nat (max_retries default_retry_config) = 3"
    by (simp add: default_retry_config_def)
  from retry_reraises_underlying_error [OF h1 h2, of "\<lambda>d s. s" "()"] obtain e s0 s' where
    "retry_with_backoff (counted always_timeout) default_retry_config
       (counted_pause (\<lambda>d s. s)) (0, ())
       = (Inl e, (nat (max_retries default_retry_config) + 1, s'))"
    "always_timeout s0 = (Inl e, s')"
    by blast
  then show ?thesis by (simp add: m always_timeout_def)
qed

section \<open>Python strings: properties\<close>

lemma str_rstrip_decomp: "s = str_rstrip cs s @ rev (takeWhile (\<lambda>c. c \<in> set cs) (rev s))"
proof -
  have "rev (takeWhile (\<lambda>c. c \<in> set cs) (rev s) @ dropWhile (\<lambda>c. c \<in> set cs) (rev s)) = s"
    by (simp only: takeWhile_dropWhile_id rev_rev_ident)
  then show ?thesis by (simp only: rev_append str_rstrip_def)
qed

lemma str_rstrip_last: "str_rstrip cs s \<noteq> [] \<Longrightarrow> last (str_rstrip cs s) \<notin> set cs"
proof -
  assume "str_rstrip cs s \<noteq> []"
  then have ne: "dropWhile (\<lambda>c. c \<in> set cs) (rev s) \<noteq> []" by (simp add: str_rstrip_def)
  then have "hd (dropWhile (\<lambda>c. c \<in> set cs) (rev s)) \<notin> set cs" by (rule hd_dropWhile)
  with ne show ?thesis by (simp add: str_rstrip_def last_rev)
qed

lemma str_rstrip_hd: "str_rstrip cs s \<noteq> [] \<Longrightarrow> hd (str_rstrip cs s) = hd s"
  using str_rstrip_decomp [of s cs] by (metis hd_append2)

lemma str_rstrip_Nil: "str_rstrip cs [] = []"
  by (simp add: str_rstrip_def)

lemma str_strip_ends:
  assumes "str_strip cs s \<noteq> []"
  shows "hd (str_strip cs s) \<notin> set cs" and "last (str_strip cs s) \<notin> set cs"
proof -
  let ?z = "dropWhile (\<lambda>c. c \<in> set cs) s"
  from assms have ne: "str_rstrip cs ?z \<noteq> []" by (simp add: str_strip_def)
  then have "?z \<noteq> []" using str_rstrip_Nil by metis
  then have "hd ?z \<notin> set cs" by (rule hd_dropWhile)
  with ne show "hd (str_strip cs s) \<notin> set cs"
    by (simp add: str_strip_def str_rstrip_hd)
  from ne show "last (str_strip cs s) \<notin> set cs"
    by (simp add: str_strip_def str_rstrip_last)
qed

lemma str_strip_id:
  assumes "s \<noteq> []" "hd s \<notin> set cs" "last s \<notin> set cs"
  shows "str_strip cs s = s"
proof -
  from assms have 1: "dropWhile (\<lambda>c. c \<in> set cs) s = s"
    by (cases s) auto
  from assms have "rev s \<noteq> []" "hd (rev s) \<notin> set cs" by (simp_all add: hd_rev)
  then have "dropWhile (\<lambda>c. c \<in> set cs) (rev s) = rev s"
    by (cases "rev s") auto
  with 1 show ?thesis by (simp add: str_strip_def str_rstrip_def)
qed

lemma str_split_not_Nil: "str_split c xs \<noteq> []"
  by (induction xs) (auto split: list.splits)

lemma str_split_notin: "c \<notin> set xs \<Longrightarrow> str_split c xs = [xs]"
  by (induction xs) auto

lemma str_split_append: "str_split c (xs @ c # ys) = str_split c xs @ str_split c ys"
  by (induction xs) (auto split: list.splits simp: str_split_not_Nil)

lemma str_join_Cons: "ws \<noteq> [] \<Longrightarrow> str_join sep (w # ws) = w @ sep @ str_join sep ws"
  by (cases ws) auto

lemma str_join_split: "str_join [c] (str_split c xs) = xs"
proof (induction xs)
  case Nil
  show ?case by simp
next
  case (Cons x xs)
  show ?case
  proof (cases "x = c")
    case True
    with Cons show ?thesis by (simp add: str_join_Cons str_split_not_Nil)
  next
    case False
    obtain w ws where sp: "str_split c xs = w # ws"
      using str_split_not_Nil by (cases "str_split c xs") auto
    with Cons False show ?thesis
      by (cases ws) auto
  qed
qed

section \<open>Moniker navigation: properties\<close>

text \<open>
  A path that does not begin with the scheme, followed by a separator and a segment
  without separator, does not begin with the scheme either.
\<close>

lemma scheme_not_prefix:
  assumes np: "\<not> prefix ''moniker://'' p" and "p \<noteq> []" and lp: "last p \<noteq> CHR ''/''"
    and nt: "CHR ''/'' \<notin> set t"
  shows "\<not> prefix ''moniker://'' (p @ CHR ''/'' # t)"
proof
  assume "prefix ''moniker://'' (p @ CHR ''/'' # t)"
  with np obtain us where us: "''moniker://'' = p @ us" "prefix us (CHR ''/'' # t)"
    by (auto simp: prefix_append)
  from us(1) have "prefix p ''moniker://''" by (metis prefixI)
  then have "p \<in> set (prefixes ''moniker://'')" by (simp only: in_set_prefixes)
  then have "p \<in> {[], ''m'', ''mo'', ''mon'', ''moni'', ''monik'', ''monike'', ''moniker'',
                  ''moniker:'', ''moniker:/'', ''moniker://''}"
    by simp
  then consider "p = []" | "p = ''m''" | "p = ''mo''" | "p = ''mon''" | "p = ''moni''"
    | "p = ''monik''" | "p = ''monike''" | "p = ''moniker''" | "p = ''moniker:''"
    | "p = ''moniker:/''" | "p = ''moniker://''"
    by blast
  then show False
  proof cases
    case 1 with assms(2) show False by simp
  next
    case 2 with us show False by auto
  next
    case 3 with us show False by auto
  next
    case 4 with us show False by auto
  next
    case 5 with us show False by auto
  next
    case 6 with us show False by auto
  next
    case 7 with us show False by auto
  next
    case 8 with us show False by auto
  next
    case 9 with us nt show False by (auto simp: prefix_def)
  next
    case 10 with lp show False by simp
  next
    case 11 with np show False by simp
  qed
qed

text \<open>
  Claim C9, as stated, at the path \<open>x\<close> and the sub-path \<open>a/b\<close>: the parent of the child is
  \<open>x/a\<close>, not \<open>x\<close>, since \<open>parent\<close> removes the last segment only.
\<close>

theorem child_parent_counterexample:
  "''a/b'' \<noteq> [] \<and>
   map_option moniker_path (parent (child (Moniker ''x'') ''a/b'')) = Some ''x/a'' \<and>
   moniker_path (Moniker ''x'') = ''x''"
  by (simp add: Moniker_def str_strip_def str_rstrip_def child_def parent_def)

text \<open>
  Claim C9, amended. For every path whose normalised form is not empty and does not itself
  begin with the scheme \<open>moniker://\<close>, and every sub-path that is a single non-empty segment
  once its separators are stripped, the parent of the child exists and has the path of the
  moniker one started from.
\<close>

theorem child_parent_roundtrip:
  assumes "moniker_path (Moniker p) \<noteq> []"
    and "\<not> prefix ''moniker://'' (moniker_path (Moniker p))"
    and "str_strip ''/'' s \<noteq> []"
    and "CHR ''/'' \<notin> set (str_strip ''/'' s)"
  shows "map_option moniker_path (parent (child (Moniker p) s)) = Some (moniker_path (Moniker p))"
proof -
  define P where "P = moniker_path (Moniker p)"
  define t where "t = str_strip ''/'' s"
  define Q where "Q = P @ CHR ''/'' # t"
  have P: "P = str_strip ''/'' (if prefix ''moniker://'' p then drop (length ''moniker://'') p else p)"
    by (simp add: P_def Moniker_def)
  from assms have Pne: "P \<noteq> []" and Pns: "\<not> prefix ''moniker://'' P"
    and tne: "t \<noteq> []" and tns: "CHR ''/'' \<notin> set t"
    by (simp_all add: P_def t_def)
  from Pne have ends: "hd P \<noteq> CHR ''/''" "last P \<noteq> CHR ''/''"
    unfolding P using str_strip_ends [of "''/''"] by auto
  have noscheme: "\<not> prefix ''moniker://'' Q"
    unfolding Q_def using Pns Pne ends(2) tns by (rule scheme_not_prefix)
  have "last t \<in> set t" using tne by (rule last_in_set)
  with tns have lt: "last t \<noteq> CHR ''/''" by auto
  have "Q \<noteq> []" by (simp add: Q_def)
  moreover have "hd Q \<notin> set ''/''" using Pne ends(1) by (simp add: Q_def)
  moreover have "last Q \<notin> set ''/''" using tne lt by (simp add: Q_def)
  ultimately have strip: "str_strip ''/'' Q = Q"
    by (rule str_strip_id)
  have "child (Moniker p) s = Moniker Q"
    by (simp add: child_def Q_def P_def t_def)
  also have "\<dots> = Moniker_of Q"
    using noscheme strip by (simp add: Moniker_def)
  finally have child: "child (Moniker p) s = Moniker_of Q" .
  have split: "butlast (str_split CHR ''/'' Q) = str_split CHR ''/'' P"
    using tns by (simp add: Q_def str_split_append str_split_notin butlast_append)
  have "str_strip ''/'' P = P"
    using Pne ends by (intro str_strip_id) simp_all
  with Pns have P_id: "Moniker P = Moniker_of P"
    by (simp add: Moniker_def)
  have slash: "CHR ''/'' \<in> set Q" by (simp add: Q_def)
  have "parent (Moniker_of Q) = Some (Moniker P)"
    using str_join_split [of "CHR ''/''" P] slash by (simp add: parent_def split)
  with child P_id show ?thesis by (simp add: P_def)
qed

theorem child_parent_roundtrip_witness:
  "moniker_path (Moniker ''moniker://risk/cvar/'') = ''risk/cvar'' \<and>
   str_strip ''/'' ''/DESK_A/'' = ''DESK_A'' \<and>
   moniker_path (child (Moniker ''moniker://risk/cvar/'') ''/DESK_A/'') = ''risk/cvar/DESK_A'' \<and>
   map_option moniker_path (parent (child (Moniker ''moniker://risk/cvar/'') ''/DESK_A/''))
     = Some ''risk/cvar''"
proof -
  have p: "moniker_path (Moniker ''moniker://risk/cvar/'') = ''risk/cvar''"
    by (simp add: Moniker_def str_strip_def str_rstrip_def)
  have s: "str_strip ''/'' ''/DESK_A/'' = ''DESK_A''"
    by (simp add: str_strip_def str_rstrip_def)
  have c: "moniker_path (child (Moniker ''moniker://risk/cvar/'') ''/DESK_A/'') = ''risk/cvar/DESK_A''"
    by (simp add: child_def Moniker_def str_strip_def str_rstrip_def)
  have "map_option moniker_path (parent (child (Moniker ''moniker://risk/cvar/'') ''/DESK_A/''))
          = Some (moniker_path (Moniker ''moniker://risk/cvar/''))"
    by (rule child_parent_roundtrip) (simp_all add: p s)
  with p s c show ?thesis by simp
qed

section \<open>Query rewriting: properties\<close>

lemma sublist_mid: "sublist x m \<Longrightarrow> sublist x (a @ m @ b)"
proof -
  assume "sublist x m"
  then obtain ps ss where "m = ps @ x @ ss" by (auto simp: sublist_def)
  then have "a @ m @ b = (a @ ps) @ x @ (ss @ b)" by simp
  then show ?thesis unfolding sublist_def by blast
qed

lemma sublist_str_join: "x \<in> set xs \<Longrightarrow> sublist x (str_join sep xs)"
proof (induction sep xs rule: str_join.induct)
  case (1 sep)
  then show ?case by simp
next
  case (2 sep y)
  then show ?case by simp
next
  case (3 sep y z zs)
  show ?case
  proof (cases "x = y")
    case True
    then show ?thesis by simp
  next
    case False
    with 3 have "sublist x (str_join sep (z # zs))" by simp
    then have "sublist x ((y @ sep) @ str_join sep (z # zs) @ [])" by (rule sublist_mid)
    then show ?thesis by simp
  qed
qed

lemma sublist_inject_where_clause:
  assumes "(k, v) \<in> set filters"
  shows "sublist (condition k v) (inject_where_clause q filters)"
proof -
  let ?cs = "str_join '' AND '' (map (\<lambda>(key, value). condition key value) filters)"
  from assms have "condition k v \<in> set (map (\<lambda>(key, value). condition key value) filters)"
    by force
  then have s: "sublist (condition k v) ?cs" by (rule sublist_str_join)
  from assms have ne: "filters \<noteq> []" by auto
  show ?thesis
  proof (cases "str_find (str_upper q) '' WHERE '' 0")
    case None
    then have "inject_where_clause q filters =
        take (scan_markers (str_upper q) ['' GROUP '', '' ORDER '', '' HAVING '', '' UNION '', '';''] 0 (length q)) q
        @ '' WHERE '' @ ?cs
        @ drop (scan_markers (str_upper q) ['' GROUP '', '' ORDER '', '' HAVING '', '' UNION '', '';''] 0 (length q)) q"
      using ne by (simp add: inject_where_clause_def Let_def)
    also have "\<dots> = (take (scan_markers (str_upper q) ['' GROUP '', '' ORDER '', '' HAVING '', '' UNION '', '';''] 0 (length q)) q
        @ '' WHERE '') @ ?cs
        @ drop (scan_markers (str_upper q) ['' GROUP '', '' ORDER '', '' HAVING '', '' UNION '', '';''] 0 (length q)) q"
      by simp
    finally show ?thesis using s by (simp only: sublist_mid)
  next
    case (Some w)
    then have "inject_where_clause q filters =
        take (w + 7) q @ ?cs @ ('' AND '' @ drop (w + 7) q)"
      using ne by (simp add: inject_where_clause_def Let_def)
    then show ?thesis using s by (simp only: sublist_mid)
  qed
qed

text \<open>The second loop of \<^verbatim>\<open>_extract_filters\<close> keeps a top-level filter, whatever the first loop stored.\<close>

lemma foldl_keep_other:
  "k \<notin> fst ` set ps \<Longrightarrow> map_of (foldl keep acc ps) k = map_of acc k"
  by (induction ps arbitrary: acc) (auto simp: keep_def update_conv' split: param.splits)

lemma foldl_keep_found:
  "distinct (map fst ps) \<Longrightarrow> (k, Val v) \<in> set ps \<Longrightarrow> k \<notin> RESERVED_PARAMS \<Longrightarrow> v \<noteq> Atom ANone \<Longrightarrow>
   map_of (foldl keep acc ps) k = Some v"
proof (induction ps arbitrary: acc)
  case Nil
  then show ?case by simp
next
  case (Cons a ps)
  show ?case
  proof (cases "a = (k, Val v)")
    case True
    with Cons.prems have "k \<notin> fst ` set ps" by force
    then have "map_of (foldl keep (keep acc a) ps) k = map_of (keep acc a) k"
      by (rule foldl_keep_other)
    moreover from True Cons.prems have "keep acc a = AList.update k v acc"
      by (simp add: keep_def)
    ultimately show ?thesis by (simp add: update_conv')
  next
    case False
    with Cons.prems have "(k, Val v) \<in> set ps" "distinct (map fst ps)" by auto
    from Cons.IH [OF this(2) this(1) Cons.prems(3,4)] show ?thesis by simp
  qed
qed

lemma extract_filters_keeps:
  assumes "distinct (map fst ps)" "(k, Val v) \<in> set ps" "k \<notin> RESERVED_PARAMS" "v \<noteq> Atom ANone"
  shows "(k, v) \<in> set (extract_filters ps)"
proof -
  have "\<exists>acc. extract_filters ps = foldl keep acc ps"
    unfolding extract_filters_def Let_def by blast
  then obtain acc where "extract_filters ps = foldl keep acc ps" by blast
  with foldl_keep_found [OF assms] have "map_of (extract_filters ps) k = Some v" by simp
  then show ?thesis by (rule map_of_SomeD)
qed

text \<open>Stripping on the right leaves an occurrence of a string that ends in a character it keeps.\<close>

lemma str_rstrip_keeps:
  assumes "x \<noteq> []" and "last x \<notin> set cs"
  shows "str_rstrip cs (u @ x @ b) = u @ x @ str_rstrip cs b"
proof -
  from assms have hd: "hd (rev x) \<notin> set cs" by (simp add: hd_rev)
  from assms(1) obtain y ys where r: "rev x = y # ys" by (cases "rev x") simp_all
  with hd have kp: "dropWhile (\<lambda>c. c \<in> set cs) (rev x @ rev u) = rev x @ rev u" by simp
  show ?thesis
  proof (cases "\<forall>c\<in>set (rev b). c \<in> set cs")
    case True
    then have "dropWhile (\<lambda>c. c \<in> set cs) (rev b @ rev x @ rev u)
                 = dropWhile (\<lambda>c. c \<in> set cs) (rev x @ rev u)"
      by (intro dropWhile_append2) blast
    moreover from True have "dropWhile (\<lambda>c. c \<in> set cs) (rev b) = []" by simp
    ultimately show ?thesis by (simp add: str_rstrip_def kp)
  next
    case False
    then obtain c where "c \<in> set (rev b)" "\<not> c \<in> set cs" by blast
    then have "dropWhile (\<lambda>c. c \<in> set cs) (rev b @ rev x @ rev u)
                 = dropWhile (\<lambda>c. c \<in> set cs) (rev b) @ rev x @ rev u"
      by (rule dropWhile_append1)
    then show ?thesis by (simp add: str_rstrip_def)
  qed
qed

lemma sublist_str_rstrip:
  assumes "sublist x s" and "x \<noteq> []" and "last x \<notin> set cs"
  shows "sublist x (str_rstrip cs s)"
proof -
  from assms(1) obtain u b where "s = u @ x @ b" by (auto simp: sublist_def)
  with assms(2,3) have "str_rstrip cs s = u @ x @ str_rstrip cs b" by (simp add: str_rstrip_keeps)
  then show ?thesis unfolding sublist_def by blast
qed

lemma sublist_inject_limit:
  assumes "sublist x q" and "x \<noteq> []" and "last x = CHR '')''"
  shows "sublist x (inject_limit q limit)"
proof (cases "sublist ''FETCH '' (str_upper q)")
  case True
  with assms(1) show ?thesis by (simp add: inject_limit_def)
next
  case False
  from assms have "sublist x (str_rstrip '';'' q)"
    by (intro sublist_str_rstrip) simp_all
  with assms have "sublist x (str_rstrip whitespace (str_rstrip '';'' q))"
    by (intro sublist_str_rstrip) (simp_all add: whitespace_def)
  then have "sublist x ([] @ str_rstrip whitespace (str_rstrip '';'' q)
                          @ ('' FETCH FIRST '' @ str_param limit @ '' ROWS ONLY''))"
    by (rule sublist_mid)
  with False show ?thesis by (simp add: inject_limit_def)
qed

lemma inject_flashback_error:
  "inject_flashback q a = Inl e \<Longrightarrow> e = Raised ''AttributeError'' None"
  by (auto simp: inject_flashback_def Let_def
        split: param.splits pyvalue.splits atom.splits option.splits)

text \<open>The query of the adapter's tests with the single parameter \<open>dept_id = []\<close>.\<close>

lemma build_query_empty_sequence:
  "build_query (oracle_source ''SELECT * FROM employees'' [(''dept_id'', Val (Seq []))])
     = Inr (Some ''SELECT * FROM employees WHERE dept_id IN ()'')"
  by (simp add: build_query_def oracle_source_def dict_get_def py_or_def extract_filters_def keep_def
        RESERVED_PARAMS_def inject_where_clause_def str_find_def str_upper_def upper_char_def
        scan_markers_def)

text \<open>
  Claim C8, where the code departs from it. A filter whose value is an empty sequence is
  not dropped. The extraction of the filters keeps it (for a parameter mapping with
  distinct keys and a key that is not reserved), the injection of the filters puts the
  condition \<open>k IN ()\<close> for it into the query, and so the query that \<^verbatim>\<open>_build_query\<close>
  returns, and \<^verbatim>\<open>fetch\<close> executes, holds \<open>k IN ()\<close>, whatever the other parameters are
  (unless the temporal value is not a string, when \<^verbatim>\<open>isdigit\<close> raises).
\<close>

theorem empty_sequence_filter_emitted:
  "(distinct (map fst ps) \<and> (k, Val (Seq [])) \<in> set ps \<and> k \<notin> RESERVED_PARAMS
      \<longrightarrow> (k, Seq []) \<in> set (extract_filters ps)) \<and>
   ((k, Seq []) \<in> set filters \<longrightarrow> sublist (k @ '' IN ()'') (inject_where_clause q filters)) \<and>
   (query r = Some q0 \<and> q0 \<noteq> [] \<and> distinct (map fst (params r)) \<and>
    (k, Val (Seq [])) \<in> set (params r) \<and> k \<notin> RESERVED_PARAMS
      \<longrightarrow> (\<exists>q'. build_query r = Inr (Some q') \<and> sublist (k @ '' IN ()'') q') \<or>
          build_query r = Inl (Raised ''AttributeError'' None))"
proof (intro conjI impI)
  assume "distinct (map fst ps) \<and> (k, Val (Seq [])) \<in> set ps \<and> k \<notin> RESERVED_PARAMS"
  then show "(k, Seq []) \<in> set (extract_filters ps)"
    by (intro extract_filters_keeps) simp_all
next
  assume "(k, Seq []) \<in> set filters"
  then have "sublist (condition k (Seq [])) (inject_where_clause q filters)"
    by (rule sublist_inject_where_clause)
  then show "sublist (k @ '' IN ()'') (inject_where_clause q filters)" by simp
next
  assume a: "query r = Some q0 \<and> q0 \<noteq> [] \<and> distinct (map fst (params r)) \<and>
    (k, Val (Seq [])) \<in> set (params r) \<and> k \<notin> RESERVED_PARAMS"
  let ?x = "k @ '' IN ()''"
  define as_of where "as_of = py_or (dict_get (params r) ''as_of'' (Val (Atom ANone)))
                               (dict_get (params r) ''moniker_version'' (Val (Atom ANone)))"
  define fl where "fl = extract_filters (params r)"
  define limit where "limit = dict_get (params r) ''limit'' (Val (Atom ANone))"
  define first where "first = (if truthy as_of then inject_flashback q0 as_of else Inr q0)"
  from a have kept: "(k, Seq []) \<in> set fl"
    unfolding fl_def by (intro extract_filters_keeps) simp_all
  then have ne: "fl \<noteq> []" by auto
  from a have unf: "build_query r =
      (case first of
         Inl e \<Rightarrow> Inl e
       | Inr query1 \<Rightarrow>
           Inr (Some (if limit \<noteq> Val (Atom ANone)
                      then inject_limit (inject_where_clause query1 fl) limit
                      else inject_where_clause query1 fl)))"
    using ne unfolding as_of_def fl_def limit_def first_def
    by (simp add: build_query_def Let_def split: sum.splits)
  show "(\<exists>q'. build_query r = Inr (Some q') \<and> sublist ?x q') \<or>
        build_query r = Inl (Raised ''AttributeError'' None)"
  proof (cases first)
    case (Inl e)
    then have "e = Raised ''AttributeError'' None"
      by (auto simp: first_def dest: inject_flashback_error split: if_splits)
    with unf Inl show ?thesis by simp
  next
    case (Inr query1)
    from kept have "sublist (condition k (Seq [])) (inject_where_clause query1 fl)"
      by (rule sublist_inject_where_clause)
    then have w: "sublist ?x (inject_where_clause query1 fl)" by simp
    then have "sublist ?x (inject_limit (inject_where_clause query1 fl) limit)"
      by (rule sublist_inject_limit) simp_all
    with w unf Inr show ?thesis by simp
  qed
qed

theorem empty_sequence_filter_emitted_witness:
  "distinct (map fst [(''dept_id'', Val (Seq []))]) \<and>
   ''dept_id'' \<notin> RESERVED_PARAMS \<and>
   (''dept_id'', Seq []) \<in> set (extract_filters [(''dept_id'', Val (Seq []))]) \<and>
   sublist ''dept_id IN ()''
     (inject_where_clause ''SELECT * FROM employees'' (extract_filters [(''dept_id'', Val (Seq []))])) \<and>
   inject_where_clause ''SELECT * FROM employees'' (extract_filters [(''dept_id'', Val (Seq []))])
     = ''SELECT * FROM employees WHERE dept_id IN ()'' \<and>
   build_query (oracle_source ''SELECT * FROM employees'' [(''dept_id'', Val (Seq []))])
     = Inr (Some ''SELECT * FROM employees WHERE dept_id IN ()'') \<and>
   (\<exists>q'. build_query (oracle_source ''SELECT * FROM employees'' [(''dept_id'', Val (Seq []))])
            = Inr (Some q') \<and> sublist ''dept_id IN ()'' q')"
proof -
  let ?ps = "[(''dept_id'', Val (Seq []))]"
  let ?r = "oracle_source ''SELECT * FROM employees'' ?ps"
  have h: "distinct (map fst ?ps)" "(''dept_id'', Val (Seq [])) \<in> set ?ps"
    "''dept_id'' \<notin> RESERVED_PARAMS"
    by (simp_all add: RESERVED_PARAMS_def)
  have hr: "query ?r = Some ''SELECT * FROM employees''" "''SELECT * FROM employees'' \<noteq> []"
    "params ?r = ?ps"
    by (simp_all add: oracle_source_def)
  note th = empty_sequence_filter_emitted
         [of ?ps "''dept_id''" "extract_filters ?ps" "''SELECT * FROM employees''" ?r
             "''SELECT * FROM employees''"]
  from th h
  have kept: "(''dept_id'', Seq []) \<in> set (extract_filters ?ps)"
    and emitted: "sublist (''dept_id'' @ '' IN ()'')
          (inject_where_clause ''SELECT * FROM employees'' (extract_filters ?ps))"
    by blast+
  from th h hr
  have "(\<exists>q'. build_query ?r = Inr (Some q') \<and> sublist (''dept_id'' @ '' IN ()'') q') \<or>
        build_query ?r = Inl (Raised ''AttributeError'' None)"
    by simp
  then have built: "\<exists>q'. build_query ?r = Inr (Some q') \<and> sublist ''dept_id IN ()'' q'"
    by (simp add: build_query_empty_sequence)
  have e: "extract_filters ?ps = [(''dept_id'', Seq [])]"
    by (simp add: extract_filters_def keep_def dict_get_def RESERVED_PARAMS_def)
  have i: "inject_where_clause ''SELECT * FROM employees'' (extract_filters ?ps)
     = ''SELECT * FROM employees WHERE dept_id IN ()''"
    unfolding e
    by (simp add: inject_where_clause_def str_find_def str_upper_def upper_char_def scan_markers_def)
  from emitted have emitted': "sublist ''dept_id IN ()''
          (inject_where_clause ''SELECT * FROM employees'' (extract_filters ?ps))"
    by simp
  from h(1,3) kept emitted' i build_query_empty_sequence built show ?thesis by (intro conjI)
qed


























section \<open>Resolver client: properties\<close>

lemma not_retryable_simps:
  "\<not> is_retryable rc NotFoundError" "\<not> is_retryable rc ResolutionError"
  by (simp_all add: is_retryable_def sublist_code)

lemma retry_first_attempt_final:
  assumes "0 \<le> max_retries rc" and "func s = (r, s')"
    and "case r of Inr v \<Rightarrow> True | Inl e \<Rightarrow> \<not> is_retryable rc e"
  shows "retry_with_backoff func rc pause s = (r, s')"
  unfolding retry_with_backoff_def
  using assms by (subst retry_loop.simps) (auto split: sum.splits)

lemma before_request_failure_count:
  "failure_count (snd (before_request now now' b)) = failure_count b"
  "failure_threshold (snd (before_request now now' b)) = failure_threshold b"
  by (simp_all add: before_request_def)

lemma resolve_internal_404:
  assumes "cache_lookup E c m w = None"
    and "before_request (time_monotonic E w) (time_monotonic E w) (circuit_breaker c) = (Inr u, b)"
    and "0 \<le> max_retries (retry_config c)"
    and "http_get E (service_url (config c) @ ''/resolve/'' @ str_replace ''moniker://'' [] m) w
           = (Inr resp, w')"
    and "status_code resp = 404"
  shows "resolve_internal E m c (w, tr)
           = (Inl NotFoundError, c\<lparr>circuit_breaker := b\<rparr>,
              (w', tr @ [GET (service_url (config c) @ ''/resolve/'' @ str_replace ''moniker://'' [] m)]))"
proof -
  let ?p = "str_replace ''moniker://'' [] m"
  let ?url = "service_url (config c) @ ''/resolve/'' @ ?p"
  have d: "do_resolve E (config c) ?p (w, tr) = (Inl NotFoundError, (w', tr @ [GET ?url]))"
    using assms(4,5) by (simp add: do_resolve_def Let_def)
  have "retry_with_backoff (do_resolve E (config c) ?p) (retry_config c) (io_sleep E) (w, tr)
          = (Inl NotFoundError, (w', tr @ [GET ?url]))"
    using assms(3) d by (rule retry_first_attempt_final) (simp add: not_retryable_simps)
  with assms(1,2) show ?thesis
    by (simp add: resolve_internal_def Let_def resolve_except_def)
qed

lemma resolve_internal_other_status:
  assumes "cache_lookup E c m w = None"
    and "before_request (time_monotonic E w) (time_monotonic E w) (circuit_breaker c) = (Inr u, b)"
    and "0 \<le> max_retries (retry_config c)"
    and "http_get E (service_url (config c) @ ''/resolve/'' @ str_replace ''moniker://'' [] m) w
           = (Inr resp, w')"
    and "status_code resp \<noteq> 404" and "status_code resp \<noteq> 200"
  shows "resolve_internal E m c (w, tr)
           = (Inl ResolutionError,
              c\<lparr>circuit_breaker := on_failure (time_monotonic E w') b\<rparr>,
              (w', tr @ [GET (service_url (config c) @ ''/resolve/'' @ str_replace ''moniker://'' [] m)]))"
proof -
  let ?p = "str_replace ''moniker://'' [] m"
  let ?url = "service_url (config c) @ ''/resolve/'' @ ?p"
  have d: "do_resolve E (config c) ?p (w, tr) = (Inl ResolutionError, (w', tr @ [GET ?url]))"
    using assms(4,5,6) by (simp add: do_resolve_def Let_def)
  have "retry_with_backoff (do_resolve E (config c) ?p) (retry_config c) (io_sleep E) (w, tr)
          = (Inl ResolutionError, (w', tr @ [GET ?url]))"
    using assms(3) d by (rule retry_first_attempt_final) (simp add: not_retryable_simps)
  with assms(1,2) show ?thesis
    by (simp add: resolve_internal_def Let_def resolve_except_def)
qed


lemma test_env_simps:
  "time_time (test_env gets posts) w = real w"
  "time_monotonic (test_env gets posts) w = real w"
  "time_sleep (test_env gets posts) d w = w"
  "http_get (test_env gets posts) url w = (gets w, Suc w)"
  "http_post (test_env gets posts) url body w = (posts w, Suc w)"
  "adapter_fetch (test_env gets posts) r w = (Inr (), w)"
  "post_telemetry (test_env gets posts) w = w"
  by (simp_all add: test_env_def)

lemma new_client_simps:
  "config (new_client cfg) = cfg"
  "cache (new_client cfg) = Map.empty"
  "retry_config (new_client cfg) = default_retry_config"
  "circuit_breaker (new_client cfg) = default_breaker"
  by (simp_all add: new_client_def)

lemma cache_lookup_new_client: "cache_lookup E (new_client cfg) m w = None"
  by (simp add: cache_lookup_def new_client_simps)

lemma before_request_default:
  "before_request now now' default_breaker = (Inr (), default_breaker)"
  by (simp add: before_request_def default_breaker_def new_breaker_def)

lemma default_breaker_count: "failure_count default_breaker = 0"
  by (simp add: default_breaker_def new_breaker_def)

text \<open>
  Claim C3, where the code departs from it. When \<^verbatim>\<open>batch_resolve\<close> has something to ask the
  resolver, the breaker admits the request and the resolver answers \<^verbatim>\<open>/resolve/batch\<close> with
  404, the call raises the \<open>HTTPStatusError\<close> of \<^verbatim>\<open>raise_for_status\<close>, not a not-found
  error, and the failure count of the breaker goes up by one. (For the single resolve,
  \<open>resolve_internal_404\<close> above: \<open>NotFoundError\<close>, and the breaker as \<open>before_request\<close> left
  it.)
\<close>

theorem batch_resolve_404_counts_as_failure:
  assumes "batch_cached E c (fst io) (map normalize ms) = (results, uncached)"
    and "uncached \<noteq> []"
    and "fst (before_request (time_monotonic E (fst io)) (time_monotonic E (fst io))
                (circuit_breaker c)) = Inr ()"
    and "http_post E (service_url (config c) @ ''/resolve/batch'')
           (batch_request uncached) (fst io) = (Inr resp, w1)"
    and "batch_status_code resp = 404"
  shows "fst (batch_resolve E ms c io) = Inl (HTTPStatusError 404) \<and>
         failure_count (circuit_breaker (fst (snd (batch_resolve E ms c io))))
           = failure_count (circuit_breaker c) + 1"
proof -
  let ?now = "time_monotonic E (fst io)"
  obtain u b where br: "before_request ?now ?now (circuit_breaker c) = (Inr u, b)"
    using assms(3) by (cases "before_request ?now ?now (circuit_breaker c)") auto
  have fc: "failure_count b = failure_count (circuit_breaker c)"
    using before_request_failure_count(1) [of ?now ?now "circuit_breaker c"] br by simp
  have "batch_resolve E ms c io
          = batch_except E (HTTPStatusError 404) (c\<lparr>circuit_breaker := b\<rparr>)
              (w1, snd io @ [POST (service_url (config c) @ ''/resolve/batch'')
                 (batch_request uncached)])"
    using assms(1,2,4,5) br by (simp add: batch_resolve_def Let_def is_success_def)
  then show ?thesis
    by (simp add: batch_except_def on_failure_params fc)
qed

theorem batch_resolve_404_counts_as_failure_witness:
  "fst (batch_resolve (test_env not_found_404 batch_404) [''a/b'']
          (new_client (test_config 60 False)) (0, []))
     = Inl (HTTPStatusError 404) \<and>
   failure_count (circuit_breaker (new_client (test_config 60 False))) = 0 \<and>
   failure_count (circuit_breaker (fst (snd
      (batch_resolve (test_env not_found_404 batch_404) [''a/b'']
         (new_client (test_config 60 False)) (0, []))))) = 1"
proof -
  let ?E = "test_env not_found_404 batch_404" and ?c = "new_client (test_config 60 False)"
  have h1: "batch_cached ?E ?c (fst (0::nat, [])) (map normalize [''a/b'']) = ([], [normalize ''a/b''])"
    by (simp add: batch_cached_def cache_lookup_new_client)
  have h2: "[normalize ''a/b''] \<noteq> []" by simp
  have h3: "fst (before_request (time_monotonic ?E (fst (0::nat, [])))
                  (time_monotonic ?E (fst (0::nat, []))) (circuit_breaker ?c)) = Inr ()"
    by (simp add: new_client_simps before_request_default)
  have h4: "http_post ?E (service_url (config ?c) @ ''/resolve/batch'')
              (batch_request [normalize ''a/b'']) (fst (0::nat, []))
            = (Inr \<lparr>batch_status_code = 404, batch_json = Inl (Raised ''JSONDecodeError'' None)\<rparr>, Suc 0)"
    by (simp add: test_env_simps batch_404_def)
  have h5: "batch_status_code \<lparr>batch_status_code = 404, batch_json = Inl (Raised ''JSONDecodeError'' None)\<rparr> = 404"
    by simp
  from batch_resolve_404_counts_as_failure [OF h1 h2 h3 h4 h5]
  show ?thesis by (simp add: new_client_simps default_breaker_count)
qed

text \<open>
  Claim C5, as stated, for a resolver that answers 500: \<^verbatim>\<open>resolve\<close> raises
  \<open>ResolutionError\<close>, and \<^verbatim>\<open>read\<close> raises a \<open>FetchError\<close> that wraps it, although no adapter
  was reached.
\<close>

theorem read_wraps_resolution_error_counterexample:
  "fst (resolve (test_env server_error_500 batch_404) ''a/b'' (new_client (test_config 60 False)) (0, []))
     = Inl ResolutionError \<and>
   fst (read (test_env server_error_500 batch_404) ''a/b'' (new_client (test_config 60 False)) (0, []))
     = Inl (FetchError ResolutionError)"
proof -
  let ?c = "new_client (test_config 60 False)"
  let ?E = "test_env server_error_500 batch_404"
  have m: "0 \<le> max_retries (retry_config ?c)"
    by (simp add: new_client_simps default_retry_config_def)
  have r: "resolve_internal ?E (normalize ''a/b'') ?c (0, [])
        = (Inl ResolutionError, ?c\<lparr>circuit_breaker := on_failure (time_monotonic ?E (Suc 0)) default_breaker\<rparr>,
           (Suc 0, [] @ [GET (service_url (config ?c) @ ''/resolve/'' @ str_replace ''moniker://'' [] (normalize ''a/b''))]))"
    using m by (intro resolve_internal_other_status [where resp = "\<lparr>status_code = 500, json = Inl (Raised ''JSONDecodeError'' None)\<rparr>"])
      (simp_all add: cache_lookup_new_client new_client_simps before_request_default test_env_simps server_error_500_def)
  then show ?thesis
    by (simp add: resolve_def read_def Let_def read_except_def)
qed

text \<open>
  Claim C5, amended. In \<^verbatim>\<open>read\<close>, \<open>NotFoundError\<close> propagates unwrapped, and every other
  error is raised as a \<open>FetchError\<close> wrapping it as cause, whether it comes from the
  resolution step or from the adapter. In particular an answer of the resolver with a
  status other than 200 and 404 (cache missed, breaker passed) surfaces from \<^verbatim>\<open>read\<close> as
  \<open>FetchError ResolutionError\<close>.
\<close>

theorem read_error_classification:
  "(\<forall>e c1 io1. resolve_internal E (normalize m) c io = (Inl e, c1, io1) \<longrightarrow>
      fst (read E m c io) = (if e = NotFoundError then Inl NotFoundError else Inl (FetchError e))) \<and>
   (\<forall>r c1 io1 e w2. resolve_internal E (normalize m) c io = (Inr r, c1, io1) \<and>
      adapter_fetch E r (fst io1) = (Inl e, w2) \<longrightarrow>
      fst (read E m c io) = (if e = NotFoundError then Inl NotFoundError else Inl (FetchError e))) \<and>
   (\<forall>u b resp w'. cache_lookup E c (normalize m) (fst io) = None \<and>
      before_request (time_monotonic E (fst io)) (time_monotonic E (fst io)) (circuit_breaker c)
        = (Inr u, b) \<and>
      0 \<le> max_retries (retry_config c) \<and>
      http_get E (service_url (config c) @ ''/resolve/'' @ str_replace ''moniker://'' [] (normalize m))
        (fst io) = (Inr resp, w') \<and>
      status_code resp \<noteq> 404 \<and> status_code resp \<noteq> 200 \<longrightarrow>
      fst (read E m c io) = Inl (FetchError ResolutionError))"
proof (intro conjI allI impI)
  fix e c1 io1
  assume "resolve_internal E (normalize m) c io = (Inl e, c1, io1)"
  then show "fst (read E m c io) = (if e = NotFoundError then Inl NotFoundError else Inl (FetchError e))"
    by (simp add: read_def Let_def read_except_def)
next
  fix r c1 io1 e w2
  assume "resolve_internal E (normalize m) c io = (Inr r, c1, io1) \<and>
          adapter_fetch E r (fst io1) = (Inl e, w2)"
  then show "fst (read E m c io) = (if e = NotFoundError then Inl NotFoundError else Inl (FetchError e))"
    by (simp add: read_def Let_def read_except_def)
next
  fix u b resp w'
  assume a: "cache_lookup E c (normalize m) (fst io) = None \<and>
      before_request (time_monotonic E (fst io)) (time_monotonic E (fst io)) (circuit_breaker c)
        = (Inr u, b) \<and>
      0 \<le> max_retries (retry_config c) \<and>
      http_get E (service_url (config c) @ ''/resolve/'' @ str_replace ''moniker://'' [] (normalize m))
        (fst io) = (Inr resp, w') \<and>
      status_code resp \<noteq> 404 \<and> status_code resp \<noteq> 200"
  obtain w tr where io: "io = (w, tr)" by (cases io)
  from a have "fst (resolve_internal E (normalize m) c (w, tr)) = Inl ResolutionError"
    unfolding io by (subst resolve_internal_other_status [where u = u and b = b and resp = resp and w' = w']) simp_all
  then show "fst (read E m c io) = Inl (FetchError ResolutionError)"
    unfolding io by (cases "resolve_internal E (normalize m) c (w, tr)")
      (auto simp add: read_def Let_def read_except_def)
qed

theorem read_error_classification_witness:
  "fst (read (test_env server_error_500 batch_404) ''a/b'' (new_client (test_config 60 False)) (0, []))
     = Inl (FetchError ResolutionError) \<and>
   fst (read (test_env not_found_404 batch_404) ''a/b'' (new_client (test_config 60 False)) (0, []))
     = Inl NotFoundError \<and>
   fst (read broken_adapter_env ''a/b'' (new_client (test_config 60 False)) (0, []))
     = Inl (FetchError (Raised ''ValueError'' None))"
proof -
  let ?c = "new_client (test_config 60 False)"
  let ?E = "test_env server_error_500 batch_404" and ?F = "test_env not_found_404 batch_404"
  let ?url = "service_url (config ?c) @ ''/resolve/'' @ str_replace ''moniker://'' [] (normalize ''a/b'')"
  have m: "0 \<le> max_retries (retry_config ?c)"
    by (simp add: new_client_simps default_retry_config_def)
  have g: "http_get ?E ?url (fst (0::nat, []))
             = (Inr \<lparr>status_code = 500, json = Inl (Raised ''JSONDecodeError'' None)\<rparr>, Suc 0)"
    by (simp add: test_env_simps server_error_500_def)
  have one: "fst (read ?E ''a/b'' ?c (0, [])) = Inl (FetchError ResolutionError)"
    using read_error_classification [of ?E "''a/b''" ?c "(0, [])"] m g
    by (simp add: cache_lookup_new_client new_client_simps before_request_default)
  have r: "resolve_internal ?F (normalize ''a/b'') ?c (0, [])
        = (Inl NotFoundError, ?c\<lparr>circuit_breaker := default_breaker\<rparr>, (Suc 0, [] @ [GET ?url]))"
    using m by (intro resolve_internal_404 [where resp = "\<lparr>status_code = 404, json = Inl (Raised ''JSONDecodeError'' None)\<rparr>"])
      (simp_all add: cache_lookup_new_client new_client_simps before_request_default test_env_simps not_found_404_def)
  have two: "fst (read ?F ''a/b'' ?c (0, [])) = Inl NotFoundError"
    using read_error_classification [of ?F "''a/b''" ?c "(0, [])"] r by simp
  obtain r0 c1 io1 where ok: "resolve_internal broken_adapter_env (normalize ''a/b'') ?c (0, [])
      = (Inr r0, c1, io1)"
  proof -
    have "fst (resolve_internal broken_adapter_env (normalize ''a/b'') ?c (0, []))
            = Inr (\<lparr>moniker = ''moniker://a/b'', path = ''a/b'', source_type = ''rest'', connection = [],
      query = None, params = [], schema_info = None, read_only = True, ownership = [],
      binding_path = [], sub_path = None, status = Some ''deprecated'',
      deprecation_message = Some ''use new.path'', successor = Some ''new/path'',
      sunset_deadline = None, migration_guide_url = None, redirected_from = None\<rparr>)"
      by (simp add: resolve_internal_def cache_lookup_new_client new_client_simps
            before_request_default retry_with_backoff_def retry_loop.simps
            default_retry_config_def do_resolve_def broken_adapter_env_def test_env_def
            ok_200_def make_resolved_def deprecated_item_def Let_def)
    then show ?thesis using that
      by (cases "resolve_internal broken_adapter_env (normalize ''a/b'') ?c (0, [])") auto
  qed
  have f: "adapter_fetch broken_adapter_env r0 (fst io1) = (Inl (Raised ''ValueError'' None), fst io1)"
    by (simp add: broken_adapter_env_def)
  from read_error_classification [of broken_adapter_env "''a/b''" ?c "(0, [])"]
  have "\<forall>r c1 io1 e w2. resolve_internal broken_adapter_env (normalize ''a/b'') ?c (0, []) = (Inr r, c1, io1) \<and>
      adapter_fetch broken_adapter_env r (fst io1) = (Inl e, w2) \<longrightarrow>
      fst (read broken_adapter_env ''a/b'' ?c (0, []))
        = (if e = NotFoundError then Inl NotFoundError else Inl (FetchError e))"
    by (elim conjE)
  with ok f have "fst (read broken_adapter_env ''a/b'' ?c (0, []))
        = (if Raised ''ValueError'' None = NotFoundError then Inl NotFoundError
           else Inl (FetchError (Raised ''ValueError'' None)))"
    by blast
  then have three: "fst (read broken_adapter_env ''a/b'' ?c (0, []))
                      = Inl (FetchError (Raised ''ValueError'' None))"
    by simp
  from one two three show ?thesis by (intro conjI)
qed

section \<open>Resolution cache and requests: properties\<close>

text \<open>The retry engine around \<^verbatim>\<open>_do_resolve\<close> adds one \<open>GET\<close> per attempt to the trace, and nothing else.\<close>

lemma do_resolve_trace:
  "\<exists>r w1. do_resolve E cfg p (w, tr) = (r, (w1, tr @ [GET (service_url cfg @ ''/resolve/'' @ p)]))"
  by (simp add: do_resolve_def Let_def split: prod.splits sum.splits)

lemma retry_do_resolve_trace:
  "n = nat (max_retries rc + 1 - attempt) \<Longrightarrow>
   retry_loop rc (do_resolve E cfg p) (io_sleep E) attempt l (w, tr) = (res, (w', tr')) \<Longrightarrow>
   \<exists>k. tr' = tr @ replicate k (GET (service_url cfg @ ''/resolve/'' @ p)) \<and> k \<le> n \<and>
       (0 < n \<longrightarrow> 1 \<le> k) \<and> (n = 0 \<longrightarrow> res = Inl (RetryExhausted l))"
proof (induction n arbitrary: attempt l w tr)
  case 0
  then have "\<not> attempt < max_retries rc + 1" by simp
  with 0(2) have "tr' = tr \<and> res = Inl (RetryExhausted l)"
    by (subst (asm) retry_loop.simps) simp
  then show ?case by simp
next
  case (Suc n)
  let ?g = "GET (service_url cfg @ ''/resolve/'' @ p)"
  from Suc.prems(1) have lt: "attempt < max_retries rc + 1" by simp
  obtain r w1 where d: "do_resolve E cfg p (w, tr) = (r, (w1, tr @ [?g]))"
    using do_resolve_trace [of E cfg p w tr] by auto
  show ?case
  proof (cases "case r of Inr v \<Rightarrow> True | Inl e \<Rightarrow> \<not> is_retryable rc e \<or> attempt = max_retries rc")
    case True
    with Suc.prems(2) lt d have "tr' = tr @ [?g]"
      by (subst (asm) retry_loop.simps) (auto split: sum.splits)
    then have "tr' = tr @ replicate 1 ?g" by simp
    then show ?thesis by (intro exI [of _ 1]) simp
  next
    case False
    then obtain e where e: "r = Inl e" "is_retryable rc e" "attempt \<noteq> max_retries rc"
      by (auto split: sum.splits)
    with Suc.prems(2) lt d have
      "retry_loop rc (do_resolve E cfg p) (io_sleep E) (attempt + 1) (Some e)
         (time_sleep E (backoff_delay rc attempt) w1, tr @ [?g]) = (res, (w', tr'))"
      by (subst (asm) retry_loop.simps) (simp add: io_sleep_def)
    moreover from Suc.prems(1) have "n = nat (max_retries rc + 1 - (attempt + 1))" by simp
    ultimately obtain k where "tr' = (tr @ [?g]) @ replicate k ?g" "k \<le> n"
      using Suc.IH by blast
    then have "tr' = tr @ replicate (Suc k) ?g" "Suc k \<le> Suc n" by simp_all
    then show ?thesis by (intro exI [of _ "Suc k"]) simp
  qed
qed

lemma get_count_simps:
  "get_count (a @ b) = get_count a + get_count b"
  "get_count (replicate k (GET u)) = k"
  "get_count (deprecation_events cfg r) = 0"
  "get_count [] = 0"
  by (simp_all add: get_count_def deprecation_events_def)


lemma resolve_except_Inl: "fst (resolve_except E e c io) = Inl e"
  by (simp add: resolve_except_def)

lemma resolve_internal_miss_unfold:
  assumes "cache_lookup E c m w = None"
    and "before_request (time_monotonic E w) (time_monotonic E w) (circuit_breaker c) = (x, b)"
    and "retry_with_backoff (do_resolve E (config c) (str_replace ''moniker://'' [] m))
           (retry_config c) (io_sleep E) (w, tr) = (res, (w1, tr1))"
  shows "resolve_internal E m c (w, tr) =
     (case x of
        Inl e \<Rightarrow> (Inl e, c\<lparr>circuit_breaker := b\<rparr>, (w, tr))
      | Inr u \<Rightarrow>
         (case res of
            Inl e \<Rightarrow> resolve_except E e (c\<lparr>circuit_breaker := b\<rparr>) (w1, tr1)
          | Inr data \<Rightarrow>
             (case make_resolved data of
                Inl e \<Rightarrow> resolve_except E e (c\<lparr>circuit_breaker := b\<rparr>) (w1, tr1)
              | Inr resolved \<Rightarrow>
                 (Inr resolved,
                  (if cache_ttl (config c) > 0
                   then c\<lparr>circuit_breaker := b,
                          cache := (cache c)(m \<mapsto> (resolved, time_time E w1))\<rparr>
                   else c\<lparr>circuit_breaker := b\<rparr>)\<lparr>circuit_breaker := on_success b\<rparr>,
                  (w1, tr1 @ deprecation_events (config c) resolved)))))"
  using assms by (cases x) (simp_all add: resolve_internal_def Let_def emit_def split: sum.split)

lemma resolve_internal_miss_success:
  assumes miss: "cache_lookup E c m (fst io) = None"
    and ok: "resolve_internal E m c io = (Inr r, c', io')"
  shows "\<exists>k. snd io' = snd io @ replicate k (GET (resolve_url (config c) m))
                 @ deprecation_events (config c) r
             \<and> 1 \<le> k \<and> int k \<le> max_retries (retry_config c) + 1
             \<and> cache c' = (if cache_ttl (config c) > 0
                           then (cache c)(m \<mapsto> (r, time_time E (fst io'))) else cache c)
             \<and> config c' = config c"
proof -
  obtain w tr where io: "io = (w, tr)" by (cases io)
  let ?p = "str_replace ''moniker://'' [] m"
  let ?now = "time_monotonic E w"
  obtain x b where br: "before_request ?now ?now (circuit_breaker c) = (x, b)"
    by (cases "before_request ?now ?now (circuit_breaker c)")
  obtain res w1 tr1 where rt:
    "retry_with_backoff (do_resolve E (config c) ?p) (retry_config c) (io_sleep E) (w, tr)
       = (res, (w1, tr1))"
    by (metis prod.exhaust)
  from miss have miss': "cache_lookup E c m w = None" by (simp add: io)
  note unf = resolve_internal_miss_unfold [OF miss' br rt]
  from ok have fst_ok: "fst (resolve_internal E m c (w, tr)) = Inr r" by (simp add: io)
  obtain u where x: "x = Inr u"
  proof (cases x)
    case (Inl e)
    with unf fst_ok show ?thesis by simp
  next
    case (Inr u)
    then show ?thesis by (rule that)
  qed
  obtain data where res: "res = Inr data"
  proof (cases res)
    case (Inl e)
    with unf x fst_ok show ?thesis by (simp add: resolve_except_Inl)
  next
    case (Inr data)
    then show ?thesis by (rule that)
  qed
  obtain r0 where mk: "make_resolved data = Inr r0"
  proof (cases "make_resolved data")
    case (Inl e)
    with unf x res fst_ok show ?thesis by (simp add: resolve_except_Inl)
  next
    case (Inr r0)
    then show ?thesis by (rule that)
  qed
  define C where "C = (\<lambda>r'. (if cache_ttl (config c) > 0
       then c\<lparr>circuit_breaker := b, cache := (cache c)(m \<mapsto> (r', time_time E w1))\<rparr>
       else c\<lparr>circuit_breaker := b\<rparr>)\<lparr>circuit_breaker := on_success b\<rparr>)"
  from unf x res mk have full: "resolve_internal E m c (w, tr) =
     (Inr r0, C r0, (w1, tr1 @ deprecation_events (config c) r0))"
    by (simp add: C_def)
  from ok have okk: "resolve_internal E m c (w, tr) = (Inr r, c', io')" by (simp only: io)
  have "(Inr r0 :: error + ResolvedSource, C r0, (w1, tr1 @ deprecation_events (config c) r0))
          = (Inr r, c', io')"
    using full [symmetric] okk by (rule trans)
  then have r0: "r0 = r" and c': "c' = C r"
    and io': "io' = (w1, tr1 @ deprecation_events (config c) r)"
    by auto
  from rt have loop: "retry_loop (retry_config c) (do_resolve E (config c) ?p) (io_sleep E) 0 None (w, tr)
       = (res, (w1, tr1))"
    by (simp add: retry_with_backoff_def)
  define n where "n = nat (max_retries (retry_config c) + 1 - 0)"
  have "\<exists>k. tr1 = tr @ replicate k (GET (service_url (config c) @ ''/resolve/'' @ ?p)) \<and> k \<le> n \<and>
       (0 < n \<longrightarrow> 1 \<le> k) \<and> (n = 0 \<longrightarrow> res = Inl (RetryExhausted None))"
    using n_def loop by (rule retry_do_resolve_trace)
  then obtain k where
    k: "tr1 = tr @ replicate k (GET (service_url (config c) @ ''/resolve/'' @ ?p))"
       "k \<le> n" "0 < n \<longrightarrow> 1 \<le> k" "n = 0 \<longrightarrow> res = Inl (RetryExhausted None)"
    by (elim exE conjE)
  from k(4) res have pos: "0 < n" by auto
  with k(2,3) have kb: "1 \<le> k" "int k \<le> max_retries (retry_config c) + 1"
    by (simp_all add: n_def)
  have cache: "cache c' = (if cache_ttl (config c) > 0
                           then (cache c)(m \<mapsto> (r, time_time E w1)) else cache c)"
    and cfg: "config c' = config c"
    by (simp_all add: c' C_def)
  have tr: "snd io' = snd io @ replicate k (GET (resolve_url (config c) m))
                 @ deprecation_events (config c) r"
    by (simp add: io io' k(1) resolve_url_def)
  from tr kb cache cfg show ?thesis
    by (intro exI [of _ k]) (simp add: io')
qed

lemma resolve_internal_hit:
  "cache_lookup E c m (fst io) = Some r \<Longrightarrow> resolve_internal E m c io = (Inr r, c, io)"
  by (simp add: resolve_internal_def)

lemma make_resolved_deprecated_item: "make_resolved deprecated_item = Inr deprecated_source"
  by (simp add: make_resolved_def deprecated_item_def deprecated_source_def)

lemma retry_loop_final:
  assumes "attempt \<le> max_retries rc" and "func s = (r, s')"
    and "case r of Inr v \<Rightarrow> True | Inl e \<Rightarrow> \<not> is_retryable rc e"
  shows "retry_loop rc func pause attempt l s = (r, s')"
  using assms by (subst retry_loop.simps) (auto split: sum.splits)

lemma retry_loop_step:
  assumes "attempt < max_retries rc" and "func s = (Inl e, s')" and "is_retryable rc e"
  shows "retry_loop rc func pause attempt l s
           = retry_loop rc func pause (attempt + 1) (Some e) (pause (backoff_delay rc attempt) s')"
  using assms by (subst retry_loop.simps) simp

lemma resolve_internal_200:
  assumes "cache_lookup E c m w = None"
    and "before_request (time_monotonic E w) (time_monotonic E w) (circuit_breaker c) = (Inr u, b)"
    and "0 \<le> max_retries (retry_config c)"
    and "http_get E (resolve_url (config c) m) w = (Inr resp, w')"
    and "status_code resp = 200" and "json resp = Inr data" and "make_resolved data = Inr r"
  shows "resolve_internal E m c (w, tr)
           = (Inr r,
              (if cache_ttl (config c) > 0
               then c\<lparr>circuit_breaker := b, cache := (cache c)(m \<mapsto> (r, time_time E w'))\<rparr>
               else c\<lparr>circuit_breaker := b\<rparr>)\<lparr>circuit_breaker := on_success b\<rparr>,
              (w', (tr @ [GET (resolve_url (config c) m)]) @ deprecation_events (config c) r))"
proof -
  let ?p = "str_replace ''moniker://'' [] m"
  have d: "do_resolve E (config c) ?p (w, tr)
             = (Inr data, (w', tr @ [GET (resolve_url (config c) m)]))"
    using assms(4,5,6) by (simp add: do_resolve_def Let_def resolve_url_def)
  have rt: "retry_with_backoff (do_resolve E (config c) ?p) (retry_config c) (io_sleep E) (w, tr)
          = (Inr data, (w', tr @ [GET (resolve_url (config c) m)]))"
    using assms(3) d by (rule retry_first_attempt_final) simp
  from resolve_internal_miss_unfold [OF assms(1,2) rt] assms(7) show ?thesis by simp
qed

lemma cache_lookup_Some_iff:
  "cache_lookup E c m w = Some r \<longleftrightarrow>
     0 < cache_ttl (config c) \<and> (\<exists>t. cache c m = Some (r, t) \<and> time_time E w - t < cache_ttl (config c))"
  by (auto simp: cache_lookup_def split: option.splits)

lemma cache_lookup_disabled: "cache_ttl (config c) \<le> 0 \<Longrightarrow> cache_lookup E c m w = None"
  by (simp add: cache_lookup_def)

lemma resolve_except_cache:
  "cache (fst (snd (resolve_except E e c io))) = cache c"
  "snd (snd (resolve_except E e c io)) = io"
  by (simp_all add: resolve_except_def)

text \<open>Every outcome of a resolve that missed the cache and passed the breaker.\<close>

lemma resolve_internal_admitted:
  assumes miss: "cache_lookup E c m (fst io) = None"
    and br: "before_request (time_monotonic E (fst io)) (time_monotonic E (fst io))
               (circuit_breaker c) = (Inr u, b)"
  shows "\<exists>k evs. snd (snd (snd (resolve_internal E m c io)))
                   = snd io @ replicate k (GET (resolve_url (config c) m)) @ evs
             \<and> get_count evs = 0
             \<and> k \<le> nat (max_retries (retry_config c) + 1)
             \<and> (0 \<le> max_retries (retry_config c) \<longrightarrow> 1 \<le> k)
             \<and> (cache_ttl (config c) \<le> 0 \<longrightarrow>
                  cache (fst (snd (resolve_internal E m c io))) = cache c)"
proof -
  obtain w tr where io: "io = (w, tr)" by (cases io)
  let ?p = "str_replace ''moniker://'' [] m"
  obtain res w1 tr1 where rt:
    "retry_with_backoff (do_resolve E (config c) ?p) (retry_config c) (io_sleep E) (w, tr)
       = (res, (w1, tr1))"
    by (metis prod.exhaust)
  from miss have miss': "cache_lookup E c m w = None" by (simp add: io)
  from br have br': "before_request (time_monotonic E w) (time_monotonic E w)
               (circuit_breaker c) = (Inr u, b)" by (simp add: io)
  note unf = resolve_internal_miss_unfold [OF miss' br' rt]
  from rt have loop: "retry_loop (retry_config c) (do_resolve E (config c) ?p) (io_sleep E) 0 None (w, tr)
       = (res, (w1, tr1))"
    by (simp add: retry_with_backoff_def)
  define n where "n = nat (max_retries (retry_config c) + 1 - 0)"
  have "\<exists>k. tr1 = tr @ replicate k (GET (service_url (config c) @ ''/resolve/'' @ ?p)) \<and> k \<le> n \<and>
       (0 < n \<longrightarrow> 1 \<le> k) \<and> (n = 0 \<longrightarrow> res = Inl (RetryExhausted None))"
    using n_def loop by (rule retry_do_resolve_trace)
  then obtain k where
    k: "tr1 = tr @ replicate k (GET (resolve_url (config c) m))"
       "k \<le> n" "0 < n \<longrightarrow> 1 \<le> k"
    unfolding resolve_url_def by (elim exE conjE)
  from k(2,3) have kb: "k \<le> nat (max_retries (retry_config c) + 1)"
    "0 \<le> max_retries (retry_config c) \<longrightarrow> 1 \<le> k"
    by (simp_all add: n_def)
  have "\<exists>evs. snd (snd (snd (resolve_internal E m c (w, tr)))) = tr1 @ evs \<and> get_count evs = 0
          \<and> (cache_ttl (config c) \<le> 0 \<longrightarrow>
                  cache (fst (snd (resolve_internal E m c (w, tr)))) = cache c)"
  proof (cases res)
    case (Inl e)
    with unf have "snd (snd (snd (resolve_internal E m c (w, tr)))) = tr1 @ []"
      "cache (fst (snd (resolve_internal E m c (w, tr)))) = cache c"
      by (simp_all add: resolve_except_cache)
    then show ?thesis by (intro exI [of _ "[]"]) (simp add: get_count_simps)
  next
    case (Inr data)
    show ?thesis
    proof (cases "make_resolved data")
      case (Inl e)
      with unf Inr have "snd (snd (snd (resolve_internal E m c (w, tr)))) = tr1 @ []"
        "cache (fst (snd (resolve_internal E m c (w, tr)))) = cache c"
        by (simp_all add: resolve_except_cache)
      then show ?thesis by (intro exI [of _ "[]"]) (simp add: get_count_simps)
    next
      case mk: (Inr r0)
      with unf Inr have "snd (snd (snd (resolve_internal E m c (w, tr))))
                           = tr1 @ deprecation_events (config c) r0"
        "cache_ttl (config c) \<le> 0 \<longrightarrow> cache (fst (snd (resolve_internal E m c (w, tr)))) = cache c"
        by simp_all
      then show ?thesis
        by (intro exI [of _ "deprecation_events (config c) r0"]) (simp add: get_count_simps)
    qed
  qed
  then obtain evs where evs: "snd (snd (snd (resolve_internal E m c (w, tr)))) = tr1 @ evs"
    "get_count evs = 0"
    "cache_ttl (config c) \<le> 0 \<longrightarrow> cache (fst (snd (resolve_internal E m c (w, tr)))) = cache c"
    by (elim exE conjE)
  from evs(1) k(1) have "snd (snd (snd (resolve_internal E m c io)))
                   = snd io @ replicate k (GET (resolve_url (config c) m)) @ evs"
    by (simp add: io)
  with evs(2,3) kb show ?thesis
    unfolding io by (intro exI [of _ k] exI [of _ evs]) simp
qed

lemma resolve_internal_refused:
  assumes miss: "cache_lookup E c m (fst io) = None"
    and br: "before_request (time_monotonic E (fst io)) (time_monotonic E (fst io))
               (circuit_breaker c) = (Inl e, b)"
  shows "resolve_internal E m c io = (Inl e, c\<lparr>circuit_breaker := b\<rparr>, io)"
  using assms by (simp add: resolve_internal_def Let_def)

lemma resolve_url_example:
  "resolve_url (test_config ttl dep) ''moniker://a/b'' = ''http://mock/resolve/a/b''"
  by (simp add: resolve_url_def test_config_def str_replace.simps)

lemma normalize_example: "normalize ''a/b'' = ''moniker://a/b''"
  by (simp add: normalize_def)

lemma test_config_simps:
  "service_url (test_config ttl dep) = ''http://mock''"
  "cache_ttl (test_config ttl dep) = ttl"
  "deprecation_enabled (test_config ttl dep) = dep"
  "warn_on_deprecated (test_config ttl dep) = True"
  "deprecation_callback (test_config ttl dep) = True"
  "report_telemetry (test_config ttl dep) = False"
  by (simp_all add: test_config_def)

lemma default_max_retries: "max_retries default_retry_config = 3"
  by (simp add: default_retry_config_def)

lemma first_resolve_example:
  "resolve_internal (test_env ok_200 batch_404) ''moniker://a/b'' (new_client (test_config ttl dep)) (0, [])
     = (Inr deprecated_source,
        (if ttl > 0
         then (new_client (test_config ttl dep))\<lparr>circuit_breaker := default_breaker,
                cache := (cache (new_client (test_config ttl dep)))
                           (''moniker://a/b'' \<mapsto> (deprecated_source, 1))\<rparr>
         else (new_client (test_config ttl dep))\<lparr>circuit_breaker := default_breaker\<rparr>)
          \<lparr>circuit_breaker := on_success default_breaker\<rparr>,
        (Suc 0, ([] @ [GET ''http://mock/resolve/a/b''])
                @ deprecation_events (test_config ttl dep) deprecated_source))"
proof -
  let ?E = "test_env ok_200 batch_404" and ?c = "new_client (test_config ttl dep)"
  have "resolve_internal ?E ''moniker://a/b'' ?c (0, [])
     = (Inr deprecated_source,
        (if cache_ttl (config ?c) > 0
         then ?c\<lparr>circuit_breaker := default_breaker,
                cache := (cache ?c)(''moniker://a/b'' \<mapsto> (deprecated_source, time_time ?E (Suc 0)))\<rparr>
         else ?c\<lparr>circuit_breaker := default_breaker\<rparr>)
          \<lparr>circuit_breaker := on_success default_breaker\<rparr>,
        (Suc 0, ([] @ [GET (resolve_url (config ?c) ''moniker://a/b'')])
                @ deprecation_events (config ?c) deprecated_source))"
  proof (rule resolve_internal_200)
    show "cache_lookup ?E ?c ''moniker://a/b'' 0 = None" by (rule cache_lookup_new_client)
    show "before_request (time_monotonic ?E 0) (time_monotonic ?E 0) (circuit_breaker ?c)
            = (Inr (), default_breaker)"
      by (simp add: new_client_simps before_request_default)
    show "0 \<le> max_retries (retry_config ?c)" by (simp add: new_client_simps default_max_retries)
    show "http_get ?E (resolve_url (config ?c) ''moniker://a/b'') 0
            = (Inr \<lparr>status_code = 200, json = Inr deprecated_item\<rparr>, Suc 0)"
      by (simp add: test_env_simps ok_200_def)
    show "status_code \<lparr>status_code = 200, json = Inr deprecated_item\<rparr> = 200" by simp
    show "json \<lparr>status_code = 200, json = Inr deprecated_item\<rparr> = Inr deprecated_item" by simp
    show "make_resolved deprecated_item = Inr deprecated_source"
      by (rule make_resolved_deprecated_item)
  qed
  then show ?thesis
    by (simp add: new_client_simps test_config_simps resolve_url_example test_env_simps)
qed

lemma deprecation_events_disabled: "deprecation_events (test_config ttl False) r = []"
  by (simp add: deprecation_events_def test_config_simps)

text \<open>
  Claim C1, as stated, with \<open>cache_ttl = 0\<close> and a resolver whose first answer is a read
  timeout and whose second is the binding: the resolve succeeds after two \<open>GET\<close> requests,
  not one.
\<close>

theorem one_get_counterexample:
  "cache_ttl (config (new_client (test_config 0 False))) = 0 \<and>
   fst (resolve (test_env timeout_then_ok batch_404) ''a/b'' (new_client (test_config 0 False)) (0, []))
     = Inr deprecated_source \<and>
   snd (snd (snd (resolve (test_env timeout_then_ok batch_404) ''a/b''
                    (new_client (test_config 0 False)) (0, []))))
     = [GET ''http://mock/resolve/a/b'', GET ''http://mock/resolve/a/b'']"
proof -
  let ?E = "test_env timeout_then_ok batch_404" and ?c = "new_client (test_config 0 False)"
  let ?g = "GET ''http://mock/resolve/a/b''"
  let ?f = "do_resolve ?E (config ?c) (str_replace ''moniker://'' [] ''moniker://a/b'')"
  have p: "str_replace ''moniker://'' [] ''moniker://a/b'' = ''a/b''"
    by (simp add: str_replace.simps)
  have d0: "?f (0, []) = (Inl (Raised ''ReadTimeout'' None), (Suc 0, [?g]))"
    by (simp add: p do_resolve_def new_client_simps test_config_simps test_env_simps
          timeout_then_ok_def)
  have d1: "?f (Suc 0, [?g]) = (Inr deprecated_item, (Suc (Suc 0), [?g, ?g]))"
    by (simp add: p do_resolve_def new_client_simps test_config_simps test_env_simps
          timeout_then_ok_def)
  have rt: "is_retryable (retry_config ?c) (Raised ''ReadTimeout'' None)"
    by (simp add: is_retryable_def sublist_code)
  have "retry_loop (retry_config ?c) ?f (io_sleep ?E) 0 None (0, [])
          = retry_loop (retry_config ?c) ?f (io_sleep ?E) (0 + 1) (Some (Raised ''ReadTimeout'' None))
              (io_sleep ?E (backoff_delay (retry_config ?c) 0) (Suc 0, [?g]))"
    using _ d0 rt by (rule retry_loop_step) (simp add: new_client_simps default_max_retries)
  also have "io_sleep ?E (backoff_delay (retry_config ?c) 0) (Suc 0, [?g]) = (Suc 0, [?g])"
    by (simp add: io_sleep_def test_env_simps)
  also have "retry_loop (retry_config ?c) ?f (io_sleep ?E) (0 + 1) (Some (Raised ''ReadTimeout'' None))
               (Suc 0, [?g]) = (Inr deprecated_item, (Suc (Suc 0), [?g, ?g]))"
    using _ d1 by (rule retry_loop_final) (simp_all add: new_client_simps default_max_retries)
  finally have retry: "retry_with_backoff ?f (retry_config ?c) (io_sleep ?E) (0, [])
          = (Inr deprecated_item, (Suc (Suc 0), [?g, ?g]))"
    by (simp add: retry_with_backoff_def)
  have miss: "cache_lookup ?E ?c ''moniker://a/b'' 0 = None" by (rule cache_lookup_new_client)
  have br: "before_request (time_monotonic ?E 0) (time_monotonic ?E 0) (circuit_breaker ?c)
              = (Inr (), default_breaker)"
    by (simp add: new_client_simps before_request_default)
  from resolve_internal_miss_unfold [OF miss br retry]
  have "resolve_internal ?E ''moniker://a/b'' ?c (0, [])
          = (Inr deprecated_source,
             (?c\<lparr>circuit_breaker := default_breaker\<rparr>)\<lparr>circuit_breaker := on_success default_breaker\<rparr>,
             (Suc (Suc 0), [?g, ?g]))"
    by (simp add: make_resolved_deprecated_item new_client_simps test_config_simps
          deprecation_events_disabled)
  then show ?thesis
    by (simp add: resolve_def normalize_example new_client_simps test_config_simps)
qed

text \<open>
  Claim C1, amended. With \<open>cache_ttl > 0\<close>, a resolve that succeeds leaves the binding in the
  cache with a time stamp: the time of the write, read off the clock after the requests,
  when the resolve went to the resolver, and the stamp the entry had when the resolve was
  itself answered from the cache (which changes nothing). Every later resolve of the same
  moniker that finds this entry less than \<open>cache_ttl\<close> after its stamp returns the cached
  binding and leaves the trace and the world untouched: no request; at \<open>cache_ttl\<close> or more
  after the stamp the entry is not served any more. A resolve that finds no live entry and
  is admitted by the breaker issues one \<open>GET\<close> per attempt of the retry engine: at least
  one, at most \<open>max_retries + 1\<close>. With \<open>cache_ttl = 0\<close>, a resolve finds nothing in the
  cache and stores nothing; it issues no request when the breaker fails fast, and otherwise
  one \<open>GET\<close> per attempt: at least one, at most \<open>max_retries + 1\<close>, and exactly one when the
  first attempt returns or fails with an error that is not retryable.
\<close>

theorem resolution_caching:
  "(\<forall>r c' io'. 0 < cache_ttl (config c) \<and> resolve_internal E m c io = (Inr r, c', io') \<longrightarrow>
      (\<exists>t. cache c' m = Some (r, t) \<and>
        (cache_lookup E c m (fst io) = None \<longrightarrow> t = time_time E (fst io')) \<and>
        (\<forall>r0. cache_lookup E c m (fst io) = Some r0 \<longrightarrow> r0 = r \<and> c' = c \<and> io' = io) \<and>
        (\<forall>c'' io2. cache c'' m = Some (r, t) \<and> config c'' = config c \<and>
             time_time E (fst io2) - t < cache_ttl (config c) \<longrightarrow>
           resolve_internal E m c'' io2 = (Inr r, c'', io2)) \<and>
        (\<forall>c'' w. cache c'' m = Some (r, t) \<and> config c'' = config c \<and>
             cache_ttl (config c) \<le> time_time E w - t \<longrightarrow>
           cache_lookup E c'' m w = None))) \<and>
   (\<forall>u b. cache_lookup E c m (fst io) = None \<and>
          before_request (time_monotonic E (fst io)) (time_monotonic E (fst io))
            (circuit_breaker c) = (Inr u, b) \<and> 0 \<le> max_retries (retry_config c) \<longrightarrow>
      (\<exists>k. get_count (snd (snd (snd (resolve_internal E m c io)))) = get_count (snd io) + k \<and>
           1 \<le> k \<and> int k \<le> max_retries (retry_config c) + 1)) \<and>
   (cache_ttl (config c) = 0 \<longrightarrow>
      cache_lookup E c m (fst io) = None \<and>
      cache (fst (snd (resolve_internal E m c io))) = cache c \<and>
      (\<forall>e b. before_request (time_monotonic E (fst io)) (time_monotonic E (fst io))
                (circuit_breaker c) = (Inl e, b) \<longrightarrow>
         snd (snd (resolve_internal E m c io)) = io) \<and>
      (\<forall>u b. before_request (time_monotonic E (fst io)) (time_monotonic E (fst io))
                (circuit_breaker c) = (Inr u, b) \<and> 0 \<le> max_retries (retry_config c) \<longrightarrow>
         (\<exists>k. get_count (snd (snd (snd (resolve_internal E m c io)))) = get_count (snd io) + k \<and>
              1 \<le> k \<and> int k \<le> max_retries (retry_config c) + 1)) \<and>
      (\<forall>u b. before_request (time_monotonic E (fst io)) (time_monotonic E (fst io))
                (circuit_breaker c) = (Inr u, b) \<and> 0 \<le> max_retries (retry_config c) \<and>
              (case fst (do_resolve E (config c) (str_replace ''moniker://'' [] m) io) of
                 Inr v \<Rightarrow> True
               | Inl e \<Rightarrow> \<not> is_retryable (retry_config c) e) \<longrightarrow>
         get_count (snd (snd (snd (resolve_internal E m c io)))) = get_count (snd io) + 1))"
proof -
  have c1: "\<forall>r c' io'. 0 < cache_ttl (config c) \<and> resolve_internal E m c io = (Inr r, c', io') \<longrightarrow>
      (\<exists>t. cache c' m = Some (r, t) \<and>
        (cache_lookup E c m (fst io) = None \<longrightarrow> t = time_time E (fst io')) \<and>
        (\<forall>r0. cache_lookup E c m (fst io) = Some r0 \<longrightarrow> r0 = r \<and> c' = c \<and> io' = io) \<and>
        (\<forall>c'' io2. cache c'' m = Some (r, t) \<and> config c'' = config c \<and>
             time_time E (fst io2) - t < cache_ttl (config c) \<longrightarrow>
           resolve_internal E m c'' io2 = (Inr r, c'', io2)) \<and>
        (\<forall>c'' w. cache c'' m = Some (r, t) \<and> config c'' = config c \<and>
             cache_ttl (config c) \<le> time_time E w - t \<longrightarrow>
           cache_lookup E c'' m w = None))"
  proof (intro allI impI)
    fix r c' io'
    assume a: "0 < cache_ttl (config c) \<and> resolve_internal E m c io = (Inr r, c', io')"
    then have ttl: "0 < cache_ttl (config c)"
      and ok: "resolve_internal E m c io = (Inr r, c', io')" by simp_all
    have "\<exists>t. cache c' m = Some (r, t) \<and>
            (cache_lookup E c m (fst io) = None \<longrightarrow> t = time_time E (fst io')) \<and>
            (\<forall>r0. cache_lookup E c m (fst io) = Some r0 \<longrightarrow> r0 = r \<and> c' = c \<and> io' = io)"
    proof (cases "cache_lookup E c m (fst io)")
      case None
      from resolve_internal_miss_success [OF None ok] ttl
      have "cache c' = (cache c)(m \<mapsto> (r, time_time E (fst io')))" by auto
      then have "cache c' m = Some (r, time_time E (fst io'))" by simp
      with None show ?thesis by simp
    next
      case (Some r0)
      with ok have eq: "r0 = r" "c' = c" "io' = io" by (simp_all add: resolve_internal_hit)
      from Some eq obtain t where "cache c' m = Some (r, t)"
        by (auto simp: cache_lookup_Some_iff)
      with Some eq show ?thesis by simp
    qed
    then obtain t where t: "cache c' m = Some (r, t)"
      "cache_lookup E c m (fst io) = None \<longrightarrow> t = time_time E (fst io')"
      "\<forall>r0. cache_lookup E c m (fst io) = Some r0 \<longrightarrow> r0 = r \<and> c' = c \<and> io' = io"
      by (elim exE conjE)
    have hit: "\<forall>c'' io2. cache c'' m = Some (r, t) \<and> config c'' = config c \<and>
             time_time E (fst io2) - t < cache_ttl (config c) \<longrightarrow>
           resolve_internal E m c'' io2 = (Inr r, c'', io2)"
      using ttl by (intro allI impI resolve_internal_hit) (simp add: cache_lookup_Some_iff)
    have expired: "\<forall>c'' w. cache c'' m = Some (r, t) \<and> config c'' = config c \<and>
             cache_ttl (config c) \<le> time_time E w - t \<longrightarrow>
           cache_lookup E c'' m w = None"
      by (simp add: cache_lookup_def)
    from t hit expired show "\<exists>t. cache c' m = Some (r, t) \<and>
        (cache_lookup E c m (fst io) = None \<longrightarrow> t = time_time E (fst io')) \<and>
        (\<forall>r0. cache_lookup E c m (fst io) = Some r0 \<longrightarrow> r0 = r \<and> c' = c \<and> io' = io) \<and>
        (\<forall>c'' io2. cache c'' m = Some (r, t) \<and> config c'' = config c \<and>
             time_time E (fst io2) - t < cache_ttl (config c) \<longrightarrow>
           resolve_internal E m c'' io2 = (Inr r, c'', io2)) \<and>
        (\<forall>c'' w. cache c'' m = Some (r, t) \<and> config c'' = config c \<and>
             cache_ttl (config c) \<le> time_time E w - t \<longrightarrow>
           cache_lookup E c'' m w = None)"
      by (intro exI [of _ t] conjI)
  qed
  have c2: "\<forall>u b. cache_lookup E c m (fst io) = None \<and>
          before_request (time_monotonic E (fst io)) (time_monotonic E (fst io))
            (circuit_breaker c) = (Inr u, b) \<and> 0 \<le> max_retries (retry_config c) \<longrightarrow>
      (\<exists>k. get_count (snd (snd (snd (resolve_internal E m c io)))) = get_count (snd io) + k \<and>
           1 \<le> k \<and> int k \<le> max_retries (retry_config c) + 1)"
  proof (intro allI impI)
    fix u b
    assume a: "cache_lookup E c m (fst io) = None \<and>
          before_request (time_monotonic E (fst io)) (time_monotonic E (fst io))
            (circuit_breaker c) = (Inr u, b) \<and> 0 \<le> max_retries (retry_config c)"
    then have miss: "cache_lookup E c m (fst io) = None"
      and br1: "before_request (time_monotonic E (fst io)) (time_monotonic E (fst io))
           (circuit_breaker c) = (Inr u, b)" and mr: "0 \<le> max_retries (retry_config c)"
      by simp_all
    from resolve_internal_admitted [OF miss br1] obtain k evs where
      k: "snd (snd (snd (resolve_internal E m c io)))
            = snd io @ replicate k (GET (resolve_url (config c) m)) @ evs"
         "get_count evs = 0" "k \<le> nat (max_retries (retry_config c) + 1)"
         "0 \<le> max_retries (retry_config c) \<longrightarrow> 1 \<le> k"
      by (elim exE conjE)
    from k(1,2) have "get_count (snd (snd (snd (resolve_internal E m c io)))) = get_count (snd io) + k"
      by (simp add: get_count_simps)
    moreover from k(3,4) mr have "1 \<le> k" "int k \<le> max_retries (retry_config c) + 1" by simp_all
    ultimately show "\<exists>k. get_count (snd (snd (snd (resolve_internal E m c io)))) = get_count (snd io) + k \<and>
                1 \<le> k \<and> int k \<le> max_retries (retry_config c) + 1"
      by blast
  qed
  have c3: "cache_ttl (config c) = 0 \<longrightarrow>
      cache_lookup E c m (fst io) = None \<and>
      cache (fst (snd (resolve_internal E m c io))) = cache c \<and>
      (\<forall>e b. before_request (time_monotonic E (fst io)) (time_monotonic E (fst io))
                (circuit_breaker c) = (Inl e, b) \<longrightarrow>
         snd (snd (resolve_internal E m c io)) = io) \<and>
      (\<forall>u b. before_request (time_monotonic E (fst io)) (time_monotonic E (fst io))
                (circuit_breaker c) = (Inr u, b) \<and> 0 \<le> max_retries (retry_config c) \<longrightarrow>
         (\<exists>k. get_count (snd (snd (snd (resolve_internal E m c io)))) = get_count (snd io) + k \<and>
              1 \<le> k \<and> int k \<le> max_retries (retry_config c) + 1)) \<and>
      (\<forall>u b. before_request (time_monotonic E (fst io)) (time_monotonic E (fst io))
                (circuit_breaker c) = (Inr u, b) \<and> 0 \<le> max_retries (retry_config c) \<and>
              (case fst (do_resolve E (config c) (str_replace ''moniker://'' [] m) io) of
                 Inr v \<Rightarrow> True
               | Inl e \<Rightarrow> \<not> is_retryable (retry_config c) e) \<longrightarrow>
         get_count (snd (snd (snd (resolve_internal E m c io)))) = get_count (snd io) + 1)"
  proof (intro conjI allI impI)
    assume "cache_ttl (config c) = 0"
    then show "cache_lookup E c m (fst io) = None" by (simp add: cache_lookup_disabled)
  next
    assume z: "cache_ttl (config c) = 0"
    then have miss: "cache_lookup E c m (fst io) = None" by (simp add: cache_lookup_disabled)
    let ?now = "time_monotonic E (fst io)"
    obtain x b where br: "before_request ?now ?now (circuit_breaker c) = (x, b)"
      by (cases "before_request ?now ?now (circuit_breaker c)")
    show "cache (fst (snd (resolve_internal E m c io))) = cache c"
    proof (cases x)
      case (Inl e)
      with miss br show ?thesis by (simp add: resolve_internal_refused)
    next
      case (Inr u)
      with resolve_internal_admitted [OF miss, of u b] br z show ?thesis by auto
    qed
  next
    fix e b
    assume "cache_ttl (config c) = 0"
      and "before_request (time_monotonic E (fst io)) (time_monotonic E (fst io))
             (circuit_breaker c) = (Inl e, b)"
    then show "snd (snd (resolve_internal E m c io)) = io"
      by (simp add: resolve_internal_refused cache_lookup_disabled)
  next
    fix u b
    assume z: "cache_ttl (config c) = 0"
      and br: "before_request (time_monotonic E (fst io)) (time_monotonic E (fst io))
             (circuit_breaker c) = (Inr u, b) \<and> 0 \<le> max_retries (retry_config c)"
    from z have miss: "cache_lookup E c m (fst io) = None" by (simp add: cache_lookup_disabled)
    from br have br1: "before_request (time_monotonic E (fst io)) (time_monotonic E (fst io))
             (circuit_breaker c) = (Inr u, b)" and mr: "0 \<le> max_retries (retry_config c)"
      by simp_all
    from resolve_internal_admitted [OF miss br1] obtain k evs where
      k: "snd (snd (snd (resolve_internal E m c io)))
            = snd io @ replicate k (GET (resolve_url (config c) m)) @ evs"
         "get_count evs = 0" "k \<le> nat (max_retries (retry_config c) + 1)"
         "0 \<le> max_retries (retry_config c) \<longrightarrow> 1 \<le> k"
      by (elim exE conjE)
    from k(1,2) have "get_count (snd (snd (snd (resolve_internal E m c io)))) = get_count (snd io) + k"
      by (simp add: get_count_simps)
    moreover from k(3,4) mr have "1 \<le> k" "int k \<le> max_retries (retry_config c) + 1" by simp_all
    ultimately show "\<exists>k. get_count (snd (snd (snd (resolve_internal E m c io)))) = get_count (snd io) + k \<and>
                1 \<le> k \<and> int k \<le> max_retries (retry_config c) + 1"
      by blast
  next
    fix u b
    assume z: "cache_ttl (config c) = 0"
      and a: "before_request (time_monotonic E (fst io)) (time_monotonic E (fst io))
                  (circuit_breaker c) = (Inr u, b) \<and> 0 \<le> max_retries (retry_config c) \<and>
                (case fst (do_resolve E (config c) (str_replace ''moniker://'' [] m) io) of
                   Inr v \<Rightarrow> True
                 | Inl e \<Rightarrow> \<not> is_retryable (retry_config c) e)"
    obtain w tr where io: "io = (w, tr)" by (cases io)
    let ?p = "str_replace ''moniker://'' [] m"
    from z have miss: "cache_lookup E c m w = None" by (simp add: cache_lookup_disabled)
    from a have br: "before_request (time_monotonic E w) (time_monotonic E w)
                  (circuit_breaker c) = (Inr u, b)" and mr: "0 \<le> max_retries (retry_config c)"
      by (simp_all add: io)
    obtain r w1 where d: "do_resolve E (config c) ?p (w, tr)
        = (r, (w1, tr @ [GET (service_url (config c) @ ''/resolve/'' @ ?p)]))"
      using do_resolve_trace [of E "config c" ?p w tr] by auto
    with a have fin: "case r of Inr v \<Rightarrow> True | Inl e \<Rightarrow> \<not> is_retryable (retry_config c) e"
      by (simp add: io)
    have rt: "retry_with_backoff (do_resolve E (config c) ?p) (retry_config c) (io_sleep E) (w, tr)
            = (r, (w1, tr @ [GET (service_url (config c) @ ''/resolve/'' @ ?p)]))"
      using mr d fin by (rule retry_first_attempt_final)
    note unf = resolve_internal_miss_unfold [OF miss br rt]
    have "\<exists>evs. snd (snd (snd (resolve_internal E m c (w, tr))))
            = (tr @ [GET (service_url (config c) @ ''/resolve/'' @ ?p)]) @ evs \<and> get_count evs = 0"
    proof (cases r)
      case (Inl e)
      with unf show ?thesis by (simp add: resolve_except_cache get_count_simps)
    next
      case (Inr data)
      show ?thesis
      proof (cases "make_resolved data")
        case (Inl e)
        with unf Inr show ?thesis by (simp add: resolve_except_cache get_count_simps)
      next
        case mk: (Inr r0)
        with unf Inr show ?thesis by (simp add: get_count_simps)
      qed
    qed
    then obtain evs where "snd (snd (snd (resolve_internal E m c (w, tr))))
            = (tr @ [GET (service_url (config c) @ ''/resolve/'' @ ?p)]) @ evs" "get_count evs = 0"
      by (elim exE conjE)
    then show "get_count (snd (snd (snd (resolve_internal E m c io)))) = get_count (snd io) + 1"
      by (simp add: io get_count_simps get_count_def)
  qed
  from c1 c2 c3 show ?thesis by (intro conjI)
qed

theorem resolution_caching_witness:
  "0 < cache_ttl (config (new_client (test_config 60 False))) \<and>
   fst (resolve_internal (test_env ok_200 batch_404) ''moniker://a/b''
          (new_client (test_config 60 False)) (0, [])) = Inr deprecated_source \<and>
   snd (snd (resolve_internal (test_env ok_200 batch_404) ''moniker://a/b''
          (new_client (test_config 60 False)) (0, []))) = (1, [GET ''http://mock/resolve/a/b'']) \<and>
   cache (fst (snd (resolve_internal (test_env ok_200 batch_404) ''moniker://a/b''
          (new_client (test_config 60 False)) (0, [])))) ''moniker://a/b''
     = Some (deprecated_source, 1) \<and>
   resolve_internal (test_env ok_200 batch_404) ''moniker://a/b''
      (fst (snd (resolve_internal (test_env ok_200 batch_404) ''moniker://a/b''
          (new_client (test_config 60 False)) (0, []))))
      (30, [GET ''http://mock/resolve/a/b''])
     = (Inr deprecated_source,
        fst (snd (resolve_internal (test_env ok_200 batch_404) ''moniker://a/b''
          (new_client (test_config 60 False)) (0, []))),
        (30, [GET ''http://mock/resolve/a/b''])) \<and>
   cache_lookup (test_env ok_200 batch_404)
      (fst (snd (resolve_internal (test_env ok_200 batch_404) ''moniker://a/b''
          (new_client (test_config 60 False)) (0, []))))
      ''moniker://a/b'' 61 = None \<and>
   get_count (snd (snd (snd (resolve_internal (test_env ok_200 batch_404) ''moniker://a/b''
          (new_client (test_config 60 False)) (0, []))))) = 1 \<and>
   cache_ttl (config (new_client (test_config 0 False))) = 0 \<and>
   cache (fst (snd (resolve_internal (test_env ok_200 batch_404) ''moniker://a/b''
          (new_client (test_config 0 False)) (0, [])))) = Map.empty \<and>
   get_count (snd (snd (snd (resolve_internal (test_env ok_200 batch_404) ''moniker://a/b''
          (new_client (test_config 0 False)) (0, []))))) = 1"
proof -
  let ?E = "test_env ok_200 batch_404" and ?c = "new_client (test_config 60 False)"
  let ?z = "new_client (test_config 0 False)"
  let ?g = "GET ''http://mock/resolve/a/b''"
  define C where "C = fst (snd (resolve_internal ?E ''moniker://a/b'' ?c (0, [])))"
  have ttl: "0 < cache_ttl (config ?c)" by (simp add: new_client_simps test_config_simps)
  have R: "resolve_internal ?E ''moniker://a/b'' ?c (0, [])
             = (Inr deprecated_source, C, (1, [?g]))"
    unfolding C_def by (simp add: first_resolve_example deprecation_events_disabled)
  have C2: "config C = config ?c"
    unfolding C_def by (simp add: first_resolve_example)
  have miss: "cache_lookup ?E ?c ''moniker://a/b'' (fst (0::nat, []::event list)) = None"
    by (rule cache_lookup_new_client)
  note th = resolution_caching [of ?c ?E "''moniker://a/b''" "(0, [])"]
  note th1 = th [THEN conjunct1]
  from th1 ttl R have "\<exists>t. cache C ''moniker://a/b'' = Some (deprecated_source, t) \<and>
        (cache_lookup ?E ?c ''moniker://a/b'' (fst (0::nat, []::event list)) = None \<longrightarrow>
           t = time_time ?E (fst (1::nat, [?g]))) \<and>
        (\<forall>r0. cache_lookup ?E ?c ''moniker://a/b'' (fst (0::nat, []::event list)) = Some r0 \<longrightarrow>
           r0 = deprecated_source \<and> C = ?c \<and> (1::nat, [?g]) = (0, [])) \<and>
        (\<forall>c'' io2. cache c'' ''moniker://a/b'' = Some (deprecated_source, t) \<and>
             config c'' = config ?c \<and>
             time_time ?E (fst io2) - t < cache_ttl (config ?c) \<longrightarrow>
           resolve_internal ?E ''moniker://a/b'' c'' io2 = (Inr deprecated_source, c'', io2)) \<and>
        (\<forall>c'' w. cache c'' ''moniker://a/b'' = Some (deprecated_source, t) \<and>
             config c'' = config ?c \<and>
             cache_ttl (config ?c) \<le> time_time ?E w - t \<longrightarrow>
           cache_lookup ?E c'' ''moniker://a/b'' w = None)"
    by blast
  then obtain t where t: "cache C ''moniker://a/b'' = Some (deprecated_source, t)"
    and pin: "cache_lookup ?E ?c ''moniker://a/b'' (fst (0::nat, []::event list)) = None \<longrightarrow>
           t = time_time ?E (fst (1::nat, [?g]))"
    and hit: "\<forall>c'' io2. cache c'' ''moniker://a/b'' = Some (deprecated_source, t) \<and>
             config c'' = config ?c \<and>
             time_time ?E (fst io2) - t < cache_ttl (config ?c) \<longrightarrow>
           resolve_internal ?E ''moniker://a/b'' c'' io2 = (Inr deprecated_source, c'', io2)"
    and expired: "\<forall>c'' w. cache c'' ''moniker://a/b'' = Some (deprecated_source, t) \<and>
             config c'' = config ?c \<and>
             cache_ttl (config ?c) \<le> time_time ?E w - t \<longrightarrow>
           cache_lookup ?E c'' ''moniker://a/b'' w = None"
    by (elim exE conjE)
  from pin miss have t1: "t = 1" by (simp add: test_env_simps)
  from t t1 have stamp: "cache C ''moniker://a/b'' = Some (deprecated_source, 1)" by simp
  have "cache C ''moniker://a/b'' = Some (deprecated_source, t) \<and> config C = config ?c \<and>
        time_time ?E (fst (30::nat, [?g])) - t < cache_ttl (config ?c)"
    by (simp add: t C2 t1 test_env_simps new_client_simps test_config_simps)
  with hit have again: "resolve_internal ?E ''moniker://a/b'' C (30, [?g])
          = (Inr deprecated_source, C, (30, [?g]))"
    by blast
  have "cache C ''moniker://a/b'' = Some (deprecated_source, t) \<and> config C = config ?c \<and>
        cache_ttl (config ?c) \<le> time_time ?E 61 - t"
    by (simp add: t C2 t1 test_env_simps new_client_simps test_config_simps)
  with expired have late: "cache_lookup ?E C ''moniker://a/b'' 61 = None"
    by blast
  have f1: "fst (resolve_internal ?E ''moniker://a/b'' ?c (0, [])) = Inr deprecated_source"
    and f2: "snd (snd (resolve_internal ?E ''moniker://a/b'' ?c (0, [])))
               = (1, [?g])"
    by (simp_all add: first_resolve_example deprecation_events_disabled)
  from f2 have g1: "get_count (snd (snd (snd (resolve_internal ?E ''moniker://a/b'' ?c (0, []))))) = 1"
    by (simp add: get_count_def)
  have z: "cache_ttl (config ?z) = 0" by (simp add: new_client_simps test_config_simps)
  have br: "before_request (time_monotonic ?E (fst (0::nat, []::event list)))
              (time_monotonic ?E (fst (0::nat, []::event list))) (circuit_breaker ?z)
            = (Inr (), default_breaker)"
    by (simp add: new_client_simps before_request_default)
  have mr: "0 \<le> max_retries (retry_config ?z)"
    by (simp add: new_client_simps default_max_retries)
  have p: "str_replace ''moniker://'' [] ''moniker://a/b'' = ''a/b''"
    by (simp add: str_replace.simps)
  have ok: "case fst (do_resolve ?E (config ?z) (str_replace ''moniker://'' [] ''moniker://a/b'')
                   (0, [])) of Inr v \<Rightarrow> True | Inl e \<Rightarrow> \<not> is_retryable (retry_config ?z) e"
    by (simp add: p do_resolve_def new_client_simps test_config_simps test_env_simps ok_200_def)
  note th0 = resolution_caching [of ?z ?E "''moniker://a/b''" "(0, [])",
                 THEN conjunct2, THEN conjunct2, THEN mp, OF z]
  from th0 have k: "cache (fst (snd (resolve_internal ?E ''moniker://a/b'' ?z (0, [])))) = cache ?z"
    by (elim conjE)
  from th0 have "\<forall>u b. before_request (time_monotonic ?E (fst (0::nat, []::event list)))
              (time_monotonic ?E (fst (0::nat, []::event list))) (circuit_breaker ?z) = (Inr u, b) \<and>
              0 \<le> max_retries (retry_config ?z) \<and>
              (case fst (do_resolve ?E (config ?z) (str_replace ''moniker://'' [] ''moniker://a/b'')
                   (0, [])) of Inr v \<Rightarrow> True | Inl e \<Rightarrow> \<not> is_retryable (retry_config ?z) e) \<longrightarrow>
         get_count (snd (snd (snd (resolve_internal ?E ''moniker://a/b'' ?z (0, [])))))
           = get_count (snd (0::nat, []::event list)) + 1"
    by (elim conjE)
  with br mr ok have "get_count (snd (snd (snd (resolve_internal ?E ''moniker://a/b'' ?z (0, [])))))
           = get_count (snd (0::nat, []::event list)) + 1" by blast
  then have g: "get_count (snd (snd (snd (resolve_internal ?E ''moniker://a/b'' ?z (0, []))))) = 1"
    by (simp add: get_count_def)
  from k have k': "cache (fst (snd (resolve_internal ?E ''moniker://a/b'' ?z (0, [])))) = Map.empty"
    by (simp add: new_client_simps)
  from ttl f1 f2 stamp [unfolded C_def] again [unfolded C_def] late [unfolded C_def] g1 z k' g
  show ?thesis by (intro conjI)
qed
section \<open>Deprecation warnings: properties\<close>

lemma deprecation_events_on:
  assumes "deprecation_enabled cfg" "warn_on_deprecated cfg" "is_deprecated r"
  shows "deprecation_events cfg r =
           [Warn (deprecation_msg r), Log (deprecation_msg r)]
           @ (if deprecation_callback cfg
              then [Callback (path r) (deprecation_message r) (successor r)] else [])"
  using assms by (simp add: deprecation_events_def)

lemma deprecation_events_not_deprecated:
  "\<not> is_deprecated r \<Longrightarrow> deprecation_events cfg r = []"
  by (simp add: deprecation_events_def)

lemma deprecation_msg_carries:
  "sublist (path r) (deprecation_msg r)"
  "deprecation_message r = Some dm \<Longrightarrow> sublist dm (deprecation_msg r)"
  "successor r = Some su \<Longrightarrow> sublist su (deprecation_msg r)"
proof -
  let ?d = "case deprecation_message r of Some dm \<Rightarrow> if dm \<noteq> [] then '' '' @ dm else [] | None \<Rightarrow> []"
  let ?s = "case successor r of Some su \<Rightarrow> if su \<noteq> [] then '' Successor: '' @ su else [] | None \<Rightarrow> []"
  have m: "deprecation_msg r = (''Moniker '' @ sq) @ path r @ (sq @ '' is deprecated.'' @ ?d @ ?s)"
    by (simp add: deprecation_msg_def)
  show "sublist (path r) (deprecation_msg r)"
    by (simp only: m sublist_appendI)
  show "sublist dm (deprecation_msg r)" if "deprecation_message r = Some dm"
  proof (cases "dm = []")
    case True
    then show ?thesis by simp
  next
    case False
    with that have "deprecation_msg r
        = (''Moniker '' @ sq @ path r @ sq @ '' is deprecated.'' @ '' '') @ dm @ ?s"
      by (simp add: deprecation_msg_def)
    then show ?thesis by (simp only: sublist_appendI)
  qed
  show "sublist su (deprecation_msg r)" if "successor r = Some su"
  proof (cases "su = []")
    case True
    then show ?thesis by simp
  next
    case False
    with that have "deprecation_msg r
        = (''Moniker '' @ sq @ path r @ sq @ '' is deprecated.'' @ ?d @ '' Successor: '') @ su @ []"
      by (simp add: deprecation_msg_def)
    then show ?thesis by (simp only: sublist_appendI)
  qed
qed

lemma batch_items_trace:
  "batch_items E items results c io = (None, results', c', io') \<Longrightarrow>
   snd io' = snd io @ concat (map (item_events (config c)) items) \<and> config c' = config c"
proof (induction items arbitrary: results c io)
  case Nil
  then show ?case by simp
next
  case (Cons it its)
  obtain w tr where io: "io = (w, tr)" by (cases io)
  show ?case
  proof (cases "make_resolved it")
    case (Inl e)
    with Cons.prems show ?thesis by simp
  next
    case (Inr r)
    define c1 where "c1 = (if cache_ttl (config c) > 0
                     then c\<lparr>cache := (cache c)
                            (''moniker://'' @ path r \<mapsto> (r, time_time E w))\<rparr>
                     else c)"
    have cfg: "config c1 = config c" by (simp add: c1_def)
    have step: "batch_items E (it # its) results c (w, tr)
        = batch_items E its (AList.update (path r) r results) c1
            (w, tr @ deprecation_events (config c) r)"
      by (simp add: Inr Let_def emit_def c1_def)
    from Cons.prems have "batch_items E (it # its) results c (w, tr) = (None, results', c', io')"
      by (simp only: io)
    with step [symmetric] have
      "batch_items E its (AList.update (path r) r results) c1
         (w, tr @ deprecation_events (config c) r) = (None, results', c', io')"
      by (rule trans)
    from Cons.IH [OF this] have
      "snd io' = (tr @ deprecation_events (config c) r) @ concat (map (item_events (config c1)) its)"
      "config c' = config c1"
      by simp_all
    moreover have "item_events (config c) it = deprecation_events (config c) r"
      by (simp add: item_events_def Inr)
    ultimately show ?thesis using cfg by (simp add: io)
  qed
qed

lemma batch_except_Inl: "fst (batch_except E e c io) = Inl e"
  by (simp add: batch_except_def)

lemma batch_resolve_unfold:
  assumes "batch_cached E c w (map normalize ms) = (results, uncached)"
    and "uncached \<noteq> []"
    and "before_request (time_monotonic E w) (time_monotonic E w) (circuit_breaker c) = (x, b)"
    and "http_post E (service_url (config c) @ ''/resolve/batch'') (batch_request uncached) w
           = (Inr resp, w1)"
    and "batch_json resp = Inr items"
    and "batch_items E items results (c\<lparr>circuit_breaker := b\<rparr>)
           (w1, tr @ [POST (service_url (config c) @ ''/resolve/batch'') (batch_request uncached)])
           = (eo, results', c2, io2)"
  shows "batch_resolve E ms c (w, tr) =
     (case x of
        Inl e \<Rightarrow> (Inl e, c\<lparr>circuit_breaker := b\<rparr>, (w, tr))
      | Inr u \<Rightarrow>
          if \<not> is_success (batch_status_code resp)
          then batch_except E (HTTPStatusError (batch_status_code resp)) (c\<lparr>circuit_breaker := b\<rparr>)
                 (w1, tr @ [POST (service_url (config c) @ ''/resolve/batch'') (batch_request uncached)])
          else (case eo of
                  Some e \<Rightarrow> batch_except E e c2 io2
                | None \<Rightarrow> (Inr results', c2\<lparr>circuit_breaker := on_success (circuit_breaker c2)\<rparr>, io2)))"
  using assms by (cases x; cases eo) (simp_all add: batch_resolve_def Let_def)

lemma batch_resolve_trace:
  assumes bc: "batch_cached E c (fst io) (map normalize ms) = (results, uncached)"
    and ne: "uncached \<noteq> []"
    and post: "http_post E (service_url (config c) @ ''/resolve/batch'') (batch_request uncached)
                 (fst io) = (Inr resp, w1)"
    and js: "batch_json resp = Inr items"
    and ok: "batch_resolve E ms c io = (Inr res, c', io')"
  shows "snd io' = snd io @ [POST (service_url (config c) @ ''/resolve/batch'') (batch_request uncached)]
                   @ concat (map (item_events (config c)) items)"
proof -
  obtain w tr where io: "io = (w, tr)" by (cases io)
  let ?now = "time_monotonic E w"
  let ?post = "POST (service_url (config c) @ ''/resolve/batch'') (batch_request uncached)"
  obtain x b where br: "before_request ?now ?now (circuit_breaker c) = (x, b)"
    by (cases "before_request ?now ?now (circuit_breaker c)")
  obtain eo results' c2 io2 where bi:
    "batch_items E items results (c\<lparr>circuit_breaker := b\<rparr>) (w1, tr @ [?post])
       = (eo, results', c2, io2)"
    by (metis prod.exhaust)
  from bc post have bc': "batch_cached E c w (map normalize ms) = (results, uncached)"
    and post': "http_post E (service_url (config c) @ ''/resolve/batch'') (batch_request uncached) w
                  = (Inr resp, w1)"
    by (simp_all add: io)
  note unf = batch_resolve_unfold [OF bc' ne br post' js bi]
  from ok have fst_ok: "fst (batch_resolve E ms c (w, tr)) = Inr res"
    and snd_ok: "snd (snd (batch_resolve E ms c (w, tr))) = io'"
    by (simp_all add: io)
  obtain u where x: "x = Inr u"
  proof (cases x)
    case (Inl e)
    with unf fst_ok show ?thesis by simp
  next
    case (Inr u)
    then show ?thesis by (rule that)
  qed
  have succ: "is_success (batch_status_code resp)"
  proof (rule ccontr)
    assume "\<not> is_success (batch_status_code resp)"
    with unf x fst_ok show False by (simp add: batch_except_Inl)
  qed
  have eo: "eo = None"
  proof (cases eo)
    case None
    then show ?thesis .
  next
    case (Some e)
    with unf x succ fst_ok show ?thesis by (simp add: batch_except_Inl)
  qed
  from unf x succ eo snd_ok have "io' = io2" by simp
  moreover from batch_items_trace [OF bi [unfolded eo]]
  have "snd io2 = (tr @ [?post]) @ concat (map (item_events (config c)) items)"
    by simp
  ultimately show ?thesis by (simp add: io)
qed

lemma batch_resolve_all_cached:
  "batch_cached E c (fst io) (map normalize ms) = (results, []) \<Longrightarrow>
   batch_resolve E ms c io = (Inr results, c, io)"
  by (simp add: batch_resolve_def)

lemma deprecation_msg_example: "deprecation_msg deprecated_source = deprecation_text"
  by (simp add: deprecation_msg_def deprecated_source_def deprecation_text_def)

lemma deprecated_source_simps:
  "is_deprecated deprecated_source"
  "path deprecated_source = ''a/b''"
  "deprecation_message deprecated_source = Some ''use new.path''"
  "successor deprecated_source = Some ''new/path''"
  by (simp_all add: is_deprecated_def deprecated_source_def)

lemma warmed_client_simps:
  "config warmed_client = test_config 60 True"
  "cache warmed_client ''moniker://a/b'' = Some (deprecated_source, 1)"
  by (simp_all add: warmed_client_def resolve_def normalize_example first_resolve_example
        new_client_simps)

text \<open>The events of a batch answer, whether the loop over its items ends or raises.\<close>

lemma item_events_built:
  "make_resolved it = Inr r \<Longrightarrow> item_events cfg it = deprecation_events cfg r"
  "\<not> built it \<Longrightarrow> item_events cfg it = []"
  by (simp_all add: item_events_def built_def split: sum.splits)

lemma batch_items_events:
  "batch_items E items results c io = (eo, results', c', io') \<Longrightarrow>
   snd io' = snd io @ concat (map (item_events (config c)) (takeWhile built items)) \<and>
   (eo = None \<longleftrightarrow> list_all built items)"
proof (induction items arbitrary: results c io)
  case Nil
  then show ?case by auto
next
  case (Cons it its)
  obtain w tr where io: "io = (w, tr)" by (cases io)
  show ?case
  proof (cases "make_resolved it")
    case (Inl e)
    then have "\<not> built it" by (simp add: built_def)
    with Cons.prems Inl show ?thesis by auto
  next
    case (Inr r)
    then have b: "built it" by (simp add: built_def)
    define c1 where "c1 = (if cache_ttl (config c) > 0
                     then c\<lparr>cache := (cache c)
                            (''moniker://'' @ path r \<mapsto> (r, time_time E w))\<rparr>
                     else c)"
    have cfg: "config c1 = config c" by (simp add: c1_def)
    have step: "batch_items E (it # its) results c (w, tr)
        = batch_items E its (AList.update (path r) r results) c1
            (w, tr @ deprecation_events (config c) r)"
      by (simp add: Inr Let_def emit_def c1_def)
    from Cons.prems have "batch_items E (it # its) results c (w, tr) = (eo, results', c', io')"
      by (simp only: io)
    with step [symmetric] have
      "batch_items E its (AList.update (path r) r results) c1
         (w, tr @ deprecation_events (config c) r) = (eo, results', c', io')"
      by (rule trans)
    from Cons.IH [OF this] have
      "snd io' = (tr @ deprecation_events (config c) r)
                 @ concat (map (item_events (config c1)) (takeWhile built its))"
      "eo = None \<longleftrightarrow> list_all built its"
      by simp_all
    moreover have "item_events (config c) it = deprecation_events (config c) r"
      using Inr by (rule item_events_built)
    ultimately show ?thesis using cfg b by (simp add: io)
  qed
qed

lemma batch_resolve_events:
  assumes bc: "batch_cached E c (fst io) (map normalize ms) = (results, uncached)"
    and ne: "uncached \<noteq> []"
    and br: "before_request (time_monotonic E (fst io)) (time_monotonic E (fst io))
               (circuit_breaker c) = (Inr u, b)"
    and post: "http_post E (service_url (config c) @ ''/resolve/batch'') (batch_request uncached)
                 (fst io) = (Inr resp, w1)"
    and succ: "is_success (batch_status_code resp)"
    and js: "batch_json resp = Inr items"
  shows "snd (snd (snd (batch_resolve E ms c io)))
           = snd io @ [POST (service_url (config c) @ ''/resolve/batch'') (batch_request uncached)]
             @ concat (map (item_events (config c)) (takeWhile built items)) \<and>
         ((\<exists>res. fst (batch_resolve E ms c io) = Inr res) \<longleftrightarrow> list_all built items)"
proof -
  obtain w tr where io: "io = (w, tr)" by (cases io)
  let ?post = "POST (service_url (config c) @ ''/resolve/batch'') (batch_request uncached)"
  obtain eo results' c2 io2 where bi:
    "batch_items E items results (c\<lparr>circuit_breaker := b\<rparr>) (w1, tr @ [?post])
       = (eo, results', c2, io2)"
    by (metis prod.exhaust)
  from bc post br have bc': "batch_cached E c w (map normalize ms) = (results, uncached)"
    and post': "http_post E (service_url (config c) @ ''/resolve/batch'') (batch_request uncached) w
                  = (Inr resp, w1)"
    and br': "before_request (time_monotonic E w) (time_monotonic E w) (circuit_breaker c)
                = (Inr u, b)"
    by (simp_all add: io)
  note unf = batch_resolve_unfold [OF bc' ne br' post' js bi]
  from batch_items_events [OF bi]
  have tr2: "snd io2 = (tr @ [?post]) @ concat (map (item_events (config c)) (takeWhile built items))"
    and all: "eo = None \<longleftrightarrow> list_all built items"
    by simp_all
  show ?thesis
  proof (cases eo)
    case None
    with unf succ have "batch_resolve E ms c (w, tr)
        = (Inr results', c2\<lparr>circuit_breaker := on_success (circuit_breaker c2)\<rparr>, io2)"
      by simp
    with tr2 all None show ?thesis by (simp add: io)
  next
    case (Some e)
    with unf succ have "batch_resolve E ms c (w, tr) = batch_except E e c2 io2" by simp
    with tr2 all Some show ?thesis by (simp add: io batch_except_def)
  qed
qed


lemma built_examples:
  "built deprecated_item" "\<not> built pathless_item"
  by (simp_all add: built_def make_resolved_def pathless_item_def deprecated_item_def)

text \<open>
  Claim C6, as stated. With \<open>warn_on_deprecated\<close> true and the toggle \<open>deprecation_enabled\<close>
  false (its default), a resolve that returns a deprecated binding emits nothing but its
  request. And with both true, a resolve answered from the cache returns the deprecated
  binding and emits nothing at all.
\<close>

theorem deprecation_warning_counterexample:
  "warn_on_deprecated (config (new_client (test_config 60 False))) \<and>
   is_deprecated deprecated_source \<and>
   fst (resolve (test_env ok_200 batch_404) ''a/b'' (new_client (test_config 60 False)) (0, []))
     = Inr deprecated_source \<and>
   snd (snd (snd (resolve (test_env ok_200 batch_404) ''a/b''
                    (new_client (test_config 60 False)) (0, []))))
     = [GET ''http://mock/resolve/a/b''] \<and>
   deprecation_enabled (config warmed_client) \<and>
   warn_on_deprecated (config warmed_client) \<and>
   resolve (test_env ok_200 batch_404) ''a/b'' warmed_client (30, [])
     = (Inr deprecated_source, warmed_client, (30, []))"
proof -
  have "cache_lookup (test_env ok_200 batch_404) warmed_client ''moniker://a/b'' (fst (30::nat, []))
          = Some deprecated_source"
    by (simp add: cache_lookup_Some_iff warmed_client_simps test_config_simps test_env_simps)
  then have "resolve_internal (test_env ok_200 batch_404) ''moniker://a/b'' warmed_client (30, [])
          = (Inr deprecated_source, warmed_client, (30, []))"
    by (rule resolve_internal_hit)
  then show ?thesis
    by (simp add: resolve_def normalize_example first_resolve_example deprecation_events_disabled
        new_client_simps test_config_simps deprecated_source_simps warmed_client_simps)
qed

text \<open>
  Claim C6, amended. With \<open>deprecation_enabled\<close> and \<open>warn_on_deprecated\<close> both true, the
  events of a deprecated binding are one warning and one log record with the same text,
  which carries the path, the deprecation message and the successor, followed by one call
  of the callback with (path, message, successor) when one is configured. A resolve that
  is not answered from the cache emits, after its requests, exactly these events for the
  binding it returns; a resolve answered from the cache emits nothing. A batch resolve
  that the breaker admits and the resolver answers with a success status emits, after its
  one request, these events for each item of the answer, in order, up to the first item
  from which no binding can be built: there the call raises, and the items after it are
  never warned about. It returns exactly when a binding can be built from every item, and
  then it has emitted the events of all of them. For the bindings it takes from the cache
  it emits nothing.
\<close>

theorem deprecation_warning_once:
  assumes "deprecation_enabled (config c)" and "warn_on_deprecated (config c)"
  shows
   "(\<forall>r. is_deprecated r \<longrightarrow>
       deprecation_events (config c) r =
         [Warn (deprecation_msg r), Log (deprecation_msg r)]
         @ (if deprecation_callback (config c)
            then [Callback (path r) (deprecation_message r) (successor r)] else []) \<and>
       sublist (path r) (deprecation_msg r) \<and>
       (\<forall>dm. deprecation_message r = Some dm \<longrightarrow> sublist dm (deprecation_msg r)) \<and>
       (\<forall>su. successor r = Some su \<longrightarrow> sublist su (deprecation_msg r))) \<and>
    (\<forall>r c' io'. cache_lookup E c m (fst io) = None \<and>
         resolve_internal E m c io = (Inr r, c', io') \<longrightarrow>
       (\<exists>k. snd io' = snd io @ replicate k (GET (resolve_url (config c) m))
                         @ deprecation_events (config c) r)) \<and>
    (\<forall>r. cache_lookup E c m (fst io) = Some r \<longrightarrow> resolve_internal E m c io = (Inr r, c, io)) \<and>
    (\<forall>it. (\<forall>r. make_resolved it = Inr r \<longrightarrow>
                item_events (config c) it = deprecation_events (config c) r) \<and>
          (\<not> built it \<longrightarrow> item_events (config c) it = [])) \<and>
    (\<forall>results uncached u b resp w1 items.
         batch_cached E c (fst io) (map normalize ms) = (results, uncached) \<and> uncached \<noteq> [] \<and>
         before_request (time_monotonic E (fst io)) (time_monotonic E (fst io))
           (circuit_breaker c) = (Inr u, b) \<and>
         http_post E (service_url (config c) @ ''/resolve/batch'') (batch_request uncached) (fst io)
           = (Inr resp, w1) \<and>
         is_success (batch_status_code resp) \<and>
         batch_json resp = Inr items \<longrightarrow>
       snd (snd (snd (batch_resolve E ms c io)))
         = snd io
           @ [POST (service_url (config c) @ ''/resolve/batch'') (batch_request uncached)]
           @ concat (map (item_events (config c)) (takeWhile built items)) \<and>
       ((\<exists>res. fst (batch_resolve E ms c io) = Inr res) \<longleftrightarrow> list_all built items)) \<and>
    (\<forall>results uncached resp w1 items res c' io'.
         batch_cached E c (fst io) (map normalize ms) = (results, uncached) \<and> uncached \<noteq> [] \<and>
         http_post E (service_url (config c) @ ''/resolve/batch'') (batch_request uncached) (fst io)
           = (Inr resp, w1) \<and>
         batch_json resp = Inr items \<and>
         batch_resolve E ms c io = (Inr res, c', io') \<longrightarrow>
       snd io' = snd io
                 @ [POST (service_url (config c) @ ''/resolve/batch'') (batch_request uncached)]
                 @ concat (map (item_events (config c)) items)) \<and>
    (\<forall>results. batch_cached E c (fst io) (map normalize ms) = (results, []) \<longrightarrow>
       batch_resolve E ms c io = (Inr results, c, io))"
proof -
  have c1: "\<forall>r. is_deprecated r \<longrightarrow>
       deprecation_events (config c) r =
         [Warn (deprecation_msg r), Log (deprecation_msg r)]
         @ (if deprecation_callback (config c)
            then [Callback (path r) (deprecation_message r) (successor r)] else []) \<and>
       sublist (path r) (deprecation_msg r) \<and>
       (\<forall>dm. deprecation_message r = Some dm \<longrightarrow> sublist dm (deprecation_msg r)) \<and>
       (\<forall>su. successor r = Some su \<longrightarrow> sublist su (deprecation_msg r))"
  proof (intro conjI allI impI)
    fix r :: ResolvedSource assume "is_deprecated r"
    with assms show "deprecation_events (config c) r =
           [Warn (deprecation_msg r), Log (deprecation_msg r)]
           @ (if deprecation_callback (config c)
              then [Callback (path r) (deprecation_message r) (successor r)] else [])"
      by (rule deprecation_events_on)
  next
    fix r :: ResolvedSource show "sublist (path r) (deprecation_msg r)"
      by (rule deprecation_msg_carries)
  next
    fix r :: ResolvedSource and dm assume "deprecation_message r = Some dm"
    then show "sublist dm (deprecation_msg r)" by (rule deprecation_msg_carries)
  next
    fix r :: ResolvedSource and su assume "successor r = Some su"
    then show "sublist su (deprecation_msg r)" by (rule deprecation_msg_carries)
  qed
  have c2: "\<forall>r c' io'. cache_lookup E c m (fst io) = None \<and>
         resolve_internal E m c io = (Inr r, c', io') \<longrightarrow>
       (\<exists>k. snd io' = snd io @ replicate k (GET (resolve_url (config c) m))
                         @ deprecation_events (config c) r)"
  proof (intro allI impI)
    fix r c' io'
    assume a: "cache_lookup E c m (fst io) = None \<and> resolve_internal E m c io = (Inr r, c', io')"
    then have "cache_lookup E c m (fst io) = None" "resolve_internal E m c io = (Inr r, c', io')"
      by simp_all
    from resolve_internal_miss_success [OF this]
    show "\<exists>k. snd io' = snd io @ replicate k (GET (resolve_url (config c) m))
                           @ deprecation_events (config c) r"
      by blast
  qed
  have c3: "\<forall>r. cache_lookup E c m (fst io) = Some r \<longrightarrow> resolve_internal E m c io = (Inr r, c, io)"
    by (intro allI impI resolve_internal_hit)
  have c4: "\<forall>it. (\<forall>r. make_resolved it = Inr r \<longrightarrow>
                item_events (config c) it = deprecation_events (config c) r) \<and>
          (\<not> built it \<longrightarrow> item_events (config c) it = [])"
    by (simp add: item_events_built)
  have c5: "\<forall>results uncached u b resp w1 items.
         batch_cached E c (fst io) (map normalize ms) = (results, uncached) \<and> uncached \<noteq> [] \<and>
         before_request (time_monotonic E (fst io)) (time_monotonic E (fst io))
           (circuit_breaker c) = (Inr u, b) \<and>
         http_post E (service_url (config c) @ ''/resolve/batch'') (batch_request uncached) (fst io)
           = (Inr resp, w1) \<and>
         is_success (batch_status_code resp) \<and>
         batch_json resp = Inr items \<longrightarrow>
       snd (snd (snd (batch_resolve E ms c io)))
         = snd io
           @ [POST (service_url (config c) @ ''/resolve/batch'') (batch_request uncached)]
           @ concat (map (item_events (config c)) (takeWhile built items)) \<and>
       ((\<exists>res. fst (batch_resolve E ms c io) = Inr res) \<longleftrightarrow> list_all built items)"
  proof (intro allI impI)
    fix results uncached u b resp w1 items
    assume "batch_cached E c (fst io) (map normalize ms) = (results, uncached) \<and> uncached \<noteq> [] \<and>
         before_request (time_monotonic E (fst io)) (time_monotonic E (fst io))
           (circuit_breaker c) = (Inr u, b) \<and>
         http_post E (service_url (config c) @ ''/resolve/batch'') (batch_request uncached) (fst io)
           = (Inr resp, w1) \<and>
         is_success (batch_status_code resp) \<and>
         batch_json resp = Inr items"
    then have h: "batch_cached E c (fst io) (map normalize ms) = (results, uncached)"
      "uncached \<noteq> []"
      "before_request (time_monotonic E (fst io)) (time_monotonic E (fst io))
           (circuit_breaker c) = (Inr u, b)"
      "http_post E (service_url (config c) @ ''/resolve/batch'') (batch_request uncached) (fst io)
           = (Inr resp, w1)"
      "is_success (batch_status_code resp)" "batch_json resp = Inr items"
      by simp_all
    then show "snd (snd (snd (batch_resolve E ms c io)))
         = snd io
           @ [POST (service_url (config c) @ ''/resolve/batch'') (batch_request uncached)]
           @ concat (map (item_events (config c)) (takeWhile built items)) \<and>
       ((\<exists>res. fst (batch_resolve E ms c io) = Inr res) \<longleftrightarrow> list_all built items)"
      by (rule batch_resolve_events)
  qed
  have c6: "\<forall>results uncached resp w1 items res c' io'.
         batch_cached E c (fst io) (map normalize ms) = (results, uncached) \<and> uncached \<noteq> [] \<and>
         http_post E (service_url (config c) @ ''/resolve/batch'') (batch_request uncached) (fst io)
           = (Inr resp, w1) \<and>
         batch_json resp = Inr items \<and>
         batch_resolve E ms c io = (Inr res, c', io') \<longrightarrow>
       snd io' = snd io
                 @ [POST (service_url (config c) @ ''/resolve/batch'') (batch_request uncached)]
                 @ concat (map (item_events (config c)) items)"
  proof (intro allI impI)
    fix results uncached resp w1 items res c' io'
    assume a: "batch_cached E c (fst io) (map normalize ms) = (results, uncached) \<and> uncached \<noteq> [] \<and>
           http_post E (service_url (config c) @ ''/resolve/batch'') (batch_request uncached) (fst io)
             = (Inr resp, w1) \<and>
           batch_json resp = Inr items \<and>
           batch_resolve E ms c io = (Inr res, c', io')"
    then have h: "batch_cached E c (fst io) (map normalize ms) = (results, uncached)"
      "uncached \<noteq> []"
      "http_post E (service_url (config c) @ ''/resolve/batch'') (batch_request uncached) (fst io)
             = (Inr resp, w1)"
      "batch_json resp = Inr items" "batch_resolve E ms c io = (Inr res, c', io')"
      by simp_all
    show "snd io' = snd io
                   @ [POST (service_url (config c) @ ''/resolve/batch'') (batch_request uncached)]
                   @ concat (map (item_events (config c)) items)"
      using h by (rule batch_resolve_trace)
  qed
  have c7: "\<forall>results. batch_cached E c (fst io) (map normalize ms) = (results, []) \<longrightarrow>
       batch_resolve E ms c io = (Inr results, c, io)"
    by (intro allI impI batch_resolve_all_cached)
  from c1 c2 c3 c4 c5 c6 c7 show ?thesis by (intro conjI)
qed


theorem deprecation_warning_once_witness:
  "deprecation_enabled (config (new_client (test_config 60 True))) \<and>
   warn_on_deprecated (config (new_client (test_config 60 True))) \<and>
   is_deprecated deprecated_source \<and>
   fst (resolve (test_env ok_200 batch_404) ''a/b'' (new_client (test_config 60 True)) (0, []))
     = Inr deprecated_source \<and>
   snd (snd (snd (resolve (test_env ok_200 batch_404) ''a/b''
                    (new_client (test_config 60 True)) (0, []))))
     = [GET ''http://mock/resolve/a/b'', Warn deprecation_text, Log deprecation_text,
        Callback ''a/b'' (Some ''use new.path'') (Some ''new/path'')] \<and>
   (\<exists>k. snd (snd (snd (resolve_internal (test_env ok_200 batch_404) ''moniker://a/b''
                    (new_client (test_config 60 True)) (0, []))))
     = replicate k (GET ''http://mock/resolve/a/b'')
       @ [Warn deprecation_text, Log deprecation_text,
          Callback ''a/b'' (Some ''use new.path'') (Some ''new/path'')]) \<and>
   resolve_internal (test_env ok_200 batch_404) ''moniker://a/b'' warmed_client (30, [])
     = (Inr deprecated_source, warmed_client, (30, [])) \<and>
   snd (snd (snd (batch_resolve (test_env ok_200 batch_ok) [''a/b'']
                    (new_client (test_config 60 True)) (0, []))))
     = [POST ''http://mock/resolve/batch'' [''moniker://a/b''],
        Warn deprecation_text, Log deprecation_text,
        Callback ''a/b'' (Some ''use new.path'') (Some ''new/path'')] \<and>
   (\<exists>res. fst (batch_resolve (test_env ok_200 batch_ok) [''a/b'']
                 (new_client (test_config 60 True)) (0, [])) = Inr res) \<and>
   snd (snd (snd (batch_resolve (test_env ok_200 batch_broken) [''a/b'', ''x/y'', ''c/d'']
                    (new_client (test_config 60 True)) (0, []))))
     = [POST ''http://mock/resolve/batch'' [''moniker://a/b'', ''moniker://x/y'', ''moniker://c/d''],
        Warn deprecation_text, Log deprecation_text,
        Callback ''a/b'' (Some ''use new.path'') (Some ''new/path'')] \<and>
   (\<nexists>res. fst (batch_resolve (test_env ok_200 batch_broken) [''a/b'', ''x/y'', ''c/d'']
                 (new_client (test_config 60 True)) (0, [])) = Inr res) \<and>
   batch_resolve (test_env ok_200 batch_404) [''a/b''] warmed_client (30, [])
     = (Inr [(''a/b'', deprecated_source)], warmed_client, (30, []))"
proof -
  let ?E = "test_env ok_200 batch_404" and ?c = "new_client (test_config 60 True)"
  let ?B = "test_env ok_200 batch_ok" and ?K = "test_env ok_200 batch_broken"
  let ?evs = "[Warn deprecation_text, Log deprecation_text,
               Callback ''a/b'' (Some ''use new.path'') (Some ''new/path'')]"
  let ?io0 = "(0::nat, []::event list)"
  have g: "deprecation_enabled (config ?c)" "warn_on_deprecated (config ?c)"
    by (simp_all add: new_client_simps test_config_simps)
  have gw: "deprecation_enabled (config warmed_client)" "warn_on_deprecated (config warmed_client)"
    by (simp_all add: warmed_client_simps test_config_simps)
  have cfg: "config ?c = test_config 60 True" by (simp add: new_client_simps)

  txt \<open>The events of the deprecated binding.\<close>
  note th = deprecation_warning_once [OF g, of ?E "''moniker://a/b''" ?io0 "[]"]
  from th [THEN conjunct1]
  have "deprecation_events (config ?c) deprecated_source =
         [Warn (deprecation_msg deprecated_source), Log (deprecation_msg deprecated_source)]
         @ (if deprecation_callback (config ?c)
            then [Callback (path deprecated_source) (deprecation_message deprecated_source)
                    (successor deprecated_source)] else [])"
    using deprecated_source_simps(1) by blast
  then have ev: "deprecation_events (test_config 60 True) deprecated_source = ?evs"
    by (simp add: new_client_simps test_config_simps deprecation_msg_example deprecated_source_simps)
  from th [THEN conjunct2, THEN conjunct2, THEN conjunct2, THEN conjunct1]
  have "make_resolved deprecated_item = Inr deprecated_source \<longrightarrow>
          item_events (config ?c) deprecated_item = deprecation_events (config ?c) deprecated_source"
    by blast
  then have iev: "item_events (test_config 60 True) deprecated_item = ?evs"
    by (simp add: make_resolved_deprecated_item cfg ev)

  txt \<open>A single resolve that goes to the resolver.\<close>
  have r1: "fst (resolve ?E ''a/b'' ?c (0, [])) = Inr deprecated_source"
    and r2: "snd (snd (snd (resolve ?E ''a/b'' ?c (0, []))))
          = [GET ''http://mock/resolve/a/b''] @ deprecation_events (test_config 60 True) deprecated_source"
    by (simp_all add: resolve_def normalize_example first_resolve_example)
  from r2 ev have r2': "snd (snd (snd (resolve ?E ''a/b'' ?c (0, []))))
          = [GET ''http://mock/resolve/a/b'', Warn deprecation_text, Log deprecation_text,
             Callback ''a/b'' (Some ''use new.path'') (Some ''new/path'')]"
    by simp
  define C where "C = fst (snd (resolve_internal ?E ''moniker://a/b'' ?c ?io0))"
  define T where "T = snd (snd (resolve_internal ?E ''moniker://a/b'' ?c ?io0))"
  have R: "resolve_internal ?E ''moniker://a/b'' ?c ?io0 = (Inr deprecated_source, C, T)"
    unfolding C_def T_def by (simp add: first_resolve_example)
  have miss: "cache_lookup ?E ?c ''moniker://a/b'' (fst ?io0) = None"
    by (rule cache_lookup_new_client)
  from th [THEN conjunct2, THEN conjunct1] miss R
  have "\<exists>k. snd T = snd ?io0 @ replicate k (GET (resolve_url (config ?c) ''moniker://a/b''))
                         @ deprecation_events (config ?c) deprecated_source"
    by blast
  then have r3: "\<exists>k. snd (snd (snd (resolve_internal ?E ''moniker://a/b'' ?c ?io0)))
                  = replicate k (GET ''http://mock/resolve/a/b'') @ ?evs"
    unfolding T_def by (simp add: cfg ev resolve_url_example)

  txt \<open>A single resolve answered from the cache.\<close>
  have hitw: "cache_lookup ?E warmed_client ''moniker://a/b'' (fst (30::nat, []::event list))
                = Some deprecated_source"
    by (simp add: cache_lookup_Some_iff warmed_client_simps test_config_simps test_env_simps)
  note thw = deprecation_warning_once [OF gw, of ?E "''moniker://a/b''" "(30, [])" "[''a/b'']"]
  from thw [THEN conjunct2, THEN conjunct2, THEN conjunct1] hitw
  have r4: "resolve_internal ?E ''moniker://a/b'' warmed_client (30, [])
              = (Inr deprecated_source, warmed_client, (30, []))"
    by blast

  txt \<open>A batch resolve of one moniker, answered with the deprecated binding.\<close>
  have p: "str_replace ''moniker://'' [] ''moniker://a/b'' = ''a/b''"
    "str_replace ''moniker://'' [] ''moniker://x/y'' = ''x/y''"
    "str_replace ''moniker://'' [] ''moniker://c/d'' = ''c/d''"
    by (simp_all add: str_replace.simps)
  have br: "before_request (time_monotonic E' (fst ?io0)) (time_monotonic E' (fst ?io0))
              (circuit_breaker ?c) = (Inr (), default_breaker)" for E' :: "(nat, unit) env"
    by (simp add: new_client_simps before_request_default)
  define resp1 where "resp1 = \<lparr>batch_status_code = 200, batch_json = Inr [deprecated_item]\<rparr>"
  have h1: "batch_cached ?B ?c (fst ?io0) (map normalize [''a/b'']) = ([], [''moniker://a/b''])"
    "[''moniker://a/b''] \<noteq> []"
    "http_post ?B (service_url (config ?c) @ ''/resolve/batch'') (batch_request [''moniker://a/b''])
       (fst ?io0) = (Inr resp1, 1)"
    "is_success (batch_status_code resp1)"
    "batch_json resp1 = Inr [deprecated_item]"
    by (simp_all add: batch_cached_def normalize_example cache_lookup_new_client test_env_simps
          batch_ok_def resp1_def is_success_def)
  note thb = deprecation_warning_once [OF g, of ?B "''moniker://a/b''" ?io0 "[''a/b'']"]
  from thb [THEN conjunct2, THEN conjunct2, THEN conjunct2, THEN conjunct2, THEN conjunct1]
    h1 br [of ?B]
  have "snd (snd (snd (batch_resolve ?B [''a/b''] ?c ?io0)))
         = snd ?io0
           @ [POST (service_url (config ?c) @ ''/resolve/batch'') (batch_request [''moniker://a/b''])]
           @ concat (map (item_events (config ?c)) (takeWhile built [deprecated_item])) \<and>
       ((\<exists>res. fst (batch_resolve ?B [''a/b''] ?c ?io0) = Inr res)
          \<longleftrightarrow> list_all built [deprecated_item])"
    by blast
  then have b1: "snd (snd (snd (batch_resolve ?B [''a/b''] ?c ?io0)))
                   = [POST ''http://mock/resolve/batch'' [''moniker://a/b''],
                      Warn deprecation_text, Log deprecation_text,
                      Callback ''a/b'' (Some ''use new.path'') (Some ''new/path'')]"
    and b2: "\<exists>res. fst (batch_resolve ?B [''a/b''] ?c ?io0) = Inr res"
    by (simp_all add: cfg test_config_simps batch_request_def p built_examples iev)

  txt \<open>A batch resolve of three monikers; the second item of the answer has no path.\<close>
  define ms3 where "ms3 = [''a/b'', ''x/y'', ''c/d'']"
  define un3 where "un3 = [''moniker://a/b'', ''moniker://x/y'', ''moniker://c/d'']"
  define items3 where "items3 = [deprecated_item, pathless_item, deprecated_item_cd]"
  define resp3 where "resp3 = \<lparr>batch_status_code = 200, batch_json = Inr items3\<rparr>"
  have h3: "batch_cached ?K ?c (fst ?io0) (map normalize ms3) = ([], un3)"
    "un3 \<noteq> []"
    "http_post ?K (service_url (config ?c) @ ''/resolve/batch'') (batch_request un3)
       (fst ?io0) = (Inr resp3, 1)"
    "is_success (batch_status_code resp3)"
    "batch_json resp3 = Inr items3"
    by (simp_all add: batch_cached_def normalize_def cache_lookup_new_client test_env_simps
          batch_broken_def resp3_def is_success_def ms3_def un3_def items3_def)
  note thk = deprecation_warning_once [OF g, of ?K "''moniker://a/b''" ?io0 ms3]
  from thk [THEN conjunct2, THEN conjunct2, THEN conjunct2, THEN conjunct2, THEN conjunct1]
    h3 br [of ?K]
  have "snd (snd (snd (batch_resolve ?K ms3 ?c ?io0)))
         = snd ?io0
           @ [POST (service_url (config ?c) @ ''/resolve/batch'') (batch_request un3)]
           @ concat (map (item_events (config ?c)) (takeWhile built items3)) \<and>
       ((\<exists>res. fst (batch_resolve ?K ms3 ?c ?io0) = Inr res) \<longleftrightarrow> list_all built items3)"
    by blast
  then have k1: "snd (snd (snd (batch_resolve ?K ms3 ?c ?io0)))
                   = [POST ''http://mock/resolve/batch'' un3,
                      Warn deprecation_text, Log deprecation_text,
                      Callback ''a/b'' (Some ''use new.path'') (Some ''new/path'')]"
    and k2: "\<nexists>res. fst (batch_resolve ?K ms3 ?c ?io0) = Inr res"
    by (simp_all add: cfg test_config_simps batch_request_def p built_examples iev items3_def
          un3_def)

  txt \<open>A batch resolve answered from the cache.\<close>
  have hc: "batch_cached ?E warmed_client (fst (30::nat, []::event list)) (map normalize [''a/b''])
              = ([(''a/b'', deprecated_source)], [])"
    using hitw by (simp add: batch_cached_def normalize_example p)
  from thw [THEN conjunct2, THEN conjunct2, THEN conjunct2, THEN conjunct2, THEN conjunct2,
            THEN conjunct2] hc
  have c1: "batch_resolve ?E [''a/b''] warmed_client (30, [])
              = (Inr [(''a/b'', deprecated_source)], warmed_client, (30, []))"
    by blast
  from g deprecated_source_simps(1) r1 r2' r3 r4 b1 b2 k1 [unfolded ms3_def un3_def]
    k2 [unfolded ms3_def] c1
  show ?thesis by (intro conjI)
qed
end
